theory Spec2Isabelle
  imports Complex_Main "HOL-Library.Sublist"
begin

section \<open>Shared data model (core/models.py)\<close>

text \<open>
  Python \<open>str\<close> values are lists of Unicode code points, Python \<open>bytes\<close> are lists of
  8-bit characters.  The channel record is polymorphic in the type of its floating-point
  fields: the parser stores what \<open>struct.unpack\<close> delivers (type \<open>pyfloat\<close> below, with
  infinities and NaN), the DSP helpers are stated over \<open>real\<close>, that is over finite values
  with exact arithmetic.  The rounding of IEEE doubles is not part of this development;
  the places where a double operation raises an exception are (see the section on range
  errors).
\<close>

type_synonym pystr = "nat list"
type_synonym bytes = "char list"

definition str :: "string \<Rightarrow> pystr" where
  "str s = map of_char s"

record 'f ChannelData =
  name :: pystr
  index :: int
  group :: pystr
  delay_ms :: 'f
  frequencies :: "'f list"
  correction_dB :: "'f list"
  measurement_dB :: "'f list"

record 'f Profile =
  source_path :: pystr
  channels :: "'f ChannelData list"

text \<open>
  Every exception the modelled functions can raise.  The first three are the
  \<open>ValueError\<close>s that \<open>parse_swproj\<close> raises itself; the others are raised by the
  built-ins it calls (\<open>struct.unpack_from\<close>, \<open>int\<close>, \<open>float\<close>, \<open>max\<close>, list indexing,
  \<open>math.log\<close>, float division, \<open>**\<close> and \<open>math.exp\<close> on floats, \<open>int\<close> on an infinity or a
  NaN).
\<close>

datatype error =
    MissingHeader
  | NoDataBlocks
  | ChannelCountMismatch nat
  | StructError
  | IntValueError
  | FloatValueError
  | MaxEmptyError
  | IndexError
  | MathDomainError
  | ZeroDivisionError
  | OverflowError
  | NanToIntError

section \<open>Preamp policy (core/dsp.py, compute\_preamp\_db)\<close>

text \<open>
  Python's \<open>max\<close> over an iterable: \<open>ValueError\<close> on an empty one, otherwise the first
  item is kept and replaced by every later item that compares greater.
\<close>

fun py_max :: "real list \<Rightarrow> error + real" where
  "py_max [] = Inl MaxEmptyError"
| "py_max (x # xs) = Inr (foldl (\<lambda>m y. if y > m then y else m) x xs)"

text \<open>
  The generator \<open>max(ch.correction_dB) for ch in channels\<close>, consumed from the left: the
  first channel with an empty curve raises.
\<close>

fun channel_maxima :: "real ChannelData list \<Rightarrow> error + real list" where
  "channel_maxima [] = Inr []"
| "channel_maxima (ch # chs) =
     (case py_max (correction_dB ch) of
        Inl e \<Rightarrow> Inl e
      | Inr m \<Rightarrow> (case channel_maxima chs of Inl e \<Rightarrow> Inl e | Inr ms \<Rightarrow> Inr (m # ms)))"

definition compute_preamp_db :: "real ChannelData list \<Rightarrow> real \<Rightarrow> error + real" where
  "compute_preamp_db chans extra_headroom_db =
     (if chans = [] then Inr 0
      else case channel_maxima chans of
             Inl e \<Rightarrow> Inl e
           | Inr ms \<Rightarrow>
               (case py_max ms of
                  Inl e \<Rightarrow> Inl e
                | Inr max_gain \<Rightarrow>
                    if max_gain \<le> 0 then Inr 0
                    else Inr (- (max_gain + extra_headroom_db))))"

text \<open>The default argument \<open>extra_headroom_db=1.0\<close>.\<close>

definition compute_preamp_db_default :: "real ChannelData list \<Rightarrow> error + real" where
  "compute_preamp_db_default chans = compute_preamp_db chans 1"

text \<open>The test suite's \<open>DummyChannel(gains)\<close>: a channel of which only the gains matter.\<close>

definition DummyChannel :: "real list \<Rightarrow> real ChannelData" where
  "DummyChannel gains =
     \<lparr>name = [], index = 0, group = [], delay_ms = 0, frequencies = [],
      correction_dB = gains, measurement_dB = []\<rparr>"

text \<open>The largest correction gain of all channels, as the specification words it.\<close>

definition max_gain_dB :: "real ChannelData list \<Rightarrow> real" where
  "max_gain_dB chans = Max (\<Union>ch \<in> set chans. set (correction_dB ch))"

subsection \<open>Facts about \<open>py_max\<close>\<close>

lemma foldl_keep_max:
  "foldl (\<lambda>m y. if y > m then y else m) (x::real) xs = Max (set (x # xs))"
proof (induction xs arbitrary: x)
  case Nil
  show ?case by simp
next
  case (Cons y ys)
  have step: "foldl (\<lambda>m y. if y > m then y else m) x (y # ys) =
      foldl (\<lambda>m y. if y > m then y else m) (max x y) ys"
    by (simp add: max_def not_less)
  have "Max (set (max x y # ys)) = Max (set (x # y # ys))"
    by (cases ys) (simp_all add: max.assoc)
  then show ?case using Cons.IH [of "max x y"] step by simp
qed

lemma py_max_nonempty:
  assumes "xs \<noteq> []"
  shows "py_max xs = Inr (Max (set xs))"
proof (cases xs)
  case Nil
  then show ?thesis using assms by simp
next
  case (Cons a list)
  have "py_max (a # list) = Inr (Max (set (a # list)))"
    unfolding py_max.simps foldl_keep_max ..
  then show ?thesis using Cons by simp
qed

lemma channel_maxima_nonempty:
  "\<forall>ch \<in> set chans. correction_dB ch \<noteq> [] \<Longrightarrow>
   channel_maxima chans = Inr (map (\<lambda>ch. Max (set (correction_dB ch))) chans)"
  by (induction chans) (simp_all add: py_max_nonempty)

lemma Max_of_maxima:
  assumes "chans \<noteq> []" and "\<forall>ch \<in> set chans. correction_dB ch \<noteq> []"
  shows "Max (set (map (\<lambda>ch. Max (set (correction_dB ch))) chans)) = max_gain_dB chans"
proof -
  let ?A = "\<Union>ch \<in> set chans. set (correction_dB ch)"
  let ?M = "set (map (\<lambda>ch. Max (set (correction_dB ch))) chans)"
  have finA: "finite ?A" by simp
  obtain c where c: "c \<in> set chans" using assms(1) by (cases chans) auto
  have neA: "?A \<noteq> {}" using assms(2) c by fastforce
  have neM: "?M \<noteq> {}" using assms(1) by simp
  have le: "Max ?M \<le> Max ?A"
  proof (rule Max.boundedI [OF _ neM])
    show "finite ?M" by simp
  next
    fix m assume "m \<in> ?M"
    then obtain ch where ch: "ch \<in> set chans" and m: "m = Max (set (correction_dB ch))" by auto
    have "m \<in> set (correction_dB ch)" using assms(2) ch m Max_in [of "set (correction_dB ch)"] by simp
    then have "m \<in> ?A" using ch by blast
    then show "m \<le> Max ?A" using finA by (rule Max_ge [rotated])
  qed
  have ge: "Max ?A \<le> Max ?M"
  proof (rule Max.boundedI [OF finA neA])
    fix g assume "g \<in> ?A"
    then obtain ch where ch: "ch \<in> set chans" and g: "g \<in> set (correction_dB ch)" by blast
    have "g \<le> Max (set (correction_dB ch))" using g by simp
    also have "\<dots> \<le> Max ?M" using ch by (intro Max_ge) auto
    finally show "g \<le> Max ?M" .
  qed
  show ?thesis unfolding max_gain_dB_def using le ge by (rule antisym)
qed

text \<open>
  C5.  For a non-empty collection of channels with non-empty correction curves,
  \<open>compute_preamp_db\<close> returns 0 when the largest correction gain of all channels is at
  most 0 and \<open>-(max_gain + headroom)\<close> otherwise; the default headroom is 1.0; the curves
  \<open>[-1.0, 2.3, 0.0]\<close> and \<open>[1.5, 3.0, -4.0]\<close> give exactly -4.0 and the curves
  \<open>[-3.0, -1.0]\<close> and \<open>[-0.5, 0.0]\<close> give exactly 0.0.
\<close>

theorem compute_preamp_db_policy:
  "(chans \<noteq> [] \<and> (\<forall>ch \<in> set chans. correction_dB ch \<noteq> []) \<longrightarrow>
      compute_preamp_db chans headroom =
        Inr (if max_gain_dB chans \<le> 0 then 0 else - (max_gain_dB chans + headroom)))
   \<and> compute_preamp_db_default chans = compute_preamp_db chans 1
   \<and> compute_preamp_db_default [DummyChannel [-1, 23 / 10, 0], DummyChannel [3 / 2, 3, -4]] = Inr (-4)
   \<and> compute_preamp_db_default [DummyChannel [-3, -1], DummyChannel [-1 / 2, 0]] = Inr 0"
proof (intro conjI impI)
  assume a: "chans \<noteq> [] \<and> (\<forall>ch \<in> set chans. correction_dB ch \<noteq> [])"
  then have ne: "chans \<noteq> []" and curves: "\<forall>ch \<in> set chans. correction_dB ch \<noteq> []" by simp_all
  have "py_max (map (\<lambda>ch. Max (set (correction_dB ch))) chans) = Inr (max_gain_dB chans)"
    using ne py_max_nonempty [of "map (\<lambda>ch. Max (set (correction_dB ch))) chans"]
      Max_of_maxima [OF ne curves] by simp
  then show "compute_preamp_db chans headroom =
      Inr (if max_gain_dB chans \<le> 0 then 0 else - (max_gain_dB chans + headroom))"
    using ne by (simp add: compute_preamp_db_def channel_maxima_nonempty [OF curves])
next
  show "compute_preamp_db_default chans = compute_preamp_db chans 1"
    by (simp add: compute_preamp_db_default_def)
next
  show "compute_preamp_db_default [DummyChannel [-1, 23 / 10, 0], DummyChannel [3 / 2, 3, -4]] = Inr (-4)"
    by (simp add: compute_preamp_db_default_def compute_preamp_db_def DummyChannel_def)
next
  show "compute_preamp_db_default [DummyChannel [-3, -1], DummyChannel [-1 / 2, 0]] = Inr 0"
    by (simp add: compute_preamp_db_default_def compute_preamp_db_def DummyChannel_def)
qed

theorem compute_preamp_db_policy_witness:
  "[DummyChannel [1, 5 / 2], DummyChannel [-2]] \<noteq> []
   \<and> correction_dB (DummyChannel [1, 5 / 2]) \<noteq> [] \<and> correction_dB (DummyChannel [-2]) \<noteq> []
   \<and> max_gain_dB [DummyChannel [1, 5 / 2], DummyChannel [-2]] = 5 / 2
   \<and> compute_preamp_db [DummyChannel [1, 5 / 2], DummyChannel [-2]] 2 = Inr (- (9 / 2))"
proof -
  have m: "max_gain_dB [DummyChannel [1, 5 / 2], DummyChannel [-2]] = 5 / 2"
    by (simp add: max_gain_dB_def DummyChannel_def)
  have "compute_preamp_db [DummyChannel [1, 5 / 2], DummyChannel [-2]] 2 = Inr (- (9 / 2))"
    using compute_preamp_db_policy [of "[DummyChannel [1, 5 / 2], DummyChannel [-2]]" 2]
    by (simp add: m) (simp add: DummyChannel_def)
  then show ?thesis using m by (simp add: DummyChannel_def)
qed

section \<open>Range errors of doubles\<close>

text \<open>
  A double operation whose exact result is too large gives an infinity, and some
  operations raise \<open>OverflowError\<close> then.  Which results are too large is decided on the
  exact value: a real of magnitude at least \<open>2^1024 - 2^970\<close>, the midpoint between the
  largest double and \<open>2^1024\<close>, rounds to an infinity.
\<close>

definition float_overflows :: "real \<Rightarrow> bool" where
  "float_overflows x \<longleftrightarrow> 2 ^ 1024 - 2 ^ 970 \<le> \<bar>x\<bar>"

text \<open>
  \<open>10 ** x\<close> for a float \<open>x\<close> and \<open>math.exp(x)\<close>: both raise \<open>OverflowError\<close> when the
  result is beyond the doubles (a result too small is 0.0 without an exception).
\<close>

definition py_pow10 :: "real \<Rightarrow> error + real" where
  "py_pow10 x = (if float_overflows (10 powr x) then Inl OverflowError else Inr (10 powr x))"

definition math_exp :: "real \<Rightarrow> error + real" where
  "math_exp x = (if float_overflows (exp x) then Inl OverflowError else Inr (exp x))"

text \<open>
  A list comprehension or loop whose items can raise: the first item that raises ends it.
\<close>

fun collect :: "(error + 'a) list \<Rightarrow> error + 'a list" where
  "collect [] = Inr []"
| "collect (r # rs) =
     (case r of Inl e \<Rightarrow> Inl e | Inr x \<Rightarrow>
      case collect rs of Inl e \<Rightarrow> Inl e | Inr xs \<Rightarrow> Inr (x # xs))"

subsection \<open>Facts about range errors\<close>

lemma float_overflows_small:
  assumes "\<bar>x\<bar> \<le> 2 ^ 1000"
  shows "\<not> float_overflows x"
proof -
  have "(2::real) ^ 1000 < 2 ^ 1024 - 2 ^ 970" by simp
  then show ?thesis using assms by (simp add: float_overflows_def)
qed

lemma float_overflows_large:
  assumes "2 ^ 1024 \<le> \<bar>x\<bar>"
  shows "float_overflows x"
proof -
  have "(2::real) ^ 1024 - 2 ^ 970 \<le> 2 ^ 1024" by simp
  then show ?thesis using assms unfolding float_overflows_def by (rule order_trans)
qed

lemma collect_map_Inr:
  assumes "\<And>x. x \<in> set xs \<Longrightarrow> f x = Inr (g x)"
  shows "collect (map f xs) = Inr (map g xs)"
  using assms by (induction xs) simp_all

section \<open>PCM rendering (core/dsp.py, write\_wav)\<close>

text \<open>
  \<open>int(x)\<close> on a finite float truncates toward zero.
\<close>

definition py_int_of_float :: "real \<Rightarrow> int" where
  "py_int_of_float x = (if 0 \<le> x then \<lfloor>x\<rfloor> else \<lceil>x\<rceil>)"

text \<open>
  The list \<open>int_samples\<close> that \<open>write_wav\<close> hands to the WAV writer.  \<open>max\<close> of the empty
  generator raises; \<open>peak or 1.0\<close> replaces a peak of 0 by 1; the product is evaluated
  from the left, as Python does.  The division \<open>0.95 / peak\<close> does not raise: for a peak
  so small that the quotient is beyond the doubles, \<open>scale\<close> is an infinity.  Then the
  product for the first sample is an infinity, or a NaN when that sample is 0, and \<open>int\<close>
  raises \<open>OverflowError\<close> on the one and \<open>ValueError\<close> on the other.  With a finite
  \<open>scale\<close> every product is at most \<open>0.95 * 32767\<close> in magnitude.  The products are
  exact here: where an exact product lies within a rounding error of an integer, the
  product of doubles can truncate to the neighbouring integer.
\<close>

definition write_wav_int_samples :: "real list \<Rightarrow> error + int list" where
  "write_wav_int_samples samples =
     (case py_max (map abs samples) of
        Inl e \<Rightarrow> Inl e
      | Inr m \<Rightarrow>
          (let peak = (if m = 0 then 1 else m);
               scale = (95 / 100) / peak
           in if float_overflows scale
              then (if hd samples = 0 then Inl NanToIntError else Inl OverflowError)
              else Inr (map (\<lambda>s. max (- 32767) (min 32767 (py_int_of_float (s * scale * 32767))))
                         samples)))"

text \<open>The largest absolute sample, as the specification words it.\<close>

definition peak_abs :: "real list \<Rightarrow> real" where
  "peak_abs samples = Max (abs ` set samples)"

subsection \<open>Facts about the quantiser\<close>

lemma py_int_of_float_bound:
  assumes "\<bar>x\<bar> \<le> 3112865 / 100"
  shows "\<bar>py_int_of_float x\<bar> \<le> 31128"
proof (cases "0 \<le> x")
  case True
  then have v: "py_int_of_float x = \<lfloor>x\<rfloor>" by (simp add: py_int_of_float_def)
  have "x < 31129" using assms True by simp
  then have "\<lfloor>x\<rfloor> < 31129" by (simp add: floor_less_iff)
  moreover have "0 \<le> \<lfloor>x\<rfloor>" using True by simp
  ultimately show ?thesis unfolding v by linarith
next
  case False
  then have v: "py_int_of_float x = \<lceil>x\<rceil>" by (simp add: py_int_of_float_def)
  have "- 31129 < x" using assms False by simp
  then have "- 31129 < \<lceil>x\<rceil>" by (simp add: less_ceiling_iff)
  moreover have "\<lceil>x\<rceil> \<le> 0" using False by (simp add: ceiling_le_iff)
  ultimately show ?thesis unfolding v by linarith
qed

lemma py_int_of_float_peak:
  "py_int_of_float (3112865 / 100) = 31128" "py_int_of_float (- (3112865 / 100)) = - 31128"
proof -
  have "\<lfloor>3112865 / 100 :: real\<rfloor> = 31128" by (simp add: floor_eq_iff)
  then show "py_int_of_float (3112865 / 100) = 31128" by (simp add: py_int_of_float_def)
  have "\<lceil>- (3112865 / 100) :: real\<rceil> = - 31128" by (simp add: ceiling_eq_iff)
  then show "py_int_of_float (- (3112865 / 100)) = - 31128" by (simp add: py_int_of_float_def)
qed

lemma write_wav_int_samples_eq:
  assumes "samples \<noteq> []"
    and "\<not> float_overflows ((95 / 100) / (if peak_abs samples = 0 then 1 else peak_abs samples))"
  shows "write_wav_int_samples samples =
    Inr (map (\<lambda>s. max (- 32767) (min 32767 (py_int_of_float
            (s * ((95 / 100) / (if peak_abs samples = 0 then 1 else peak_abs samples)) * 32767))))
          samples)"
proof -
  have m: "py_max (map abs samples) = Inr (peak_abs samples)"
    using assms(1) py_max_nonempty [of "map abs samples"] by (simp add: peak_abs_def)
  show ?thesis
    unfolding write_wav_int_samples_def m sum.case Let_def using assms(2) by (simp only: if_False)
qed

text \<open>
  A peak below the normal doubles: \<open>0.95 / 2^-1070\<close> is beyond the doubles, the product
  with the sample is an infinity and \<open>int\<close> raises.
\<close>

lemma write_wav_tiny_peak: "write_wav_int_samples [1 / 2 ^ 1070] = Inl OverflowError"
proof -
  have "float_overflows ((95 / 100) / (1 / 2 ^ 1070))"
    by (rule float_overflows_large) simp
  then show ?thesis by (simp add: write_wav_int_samples_def Let_def)
qed

text \<open>
  C4, as the code has it.  For every non-empty list of samples whose peak is not so small
  that \<open>0.95 / peak\<close> is beyond the doubles, the renderer computes \<open>scale = 0.95 / peak\<close>
  (a peak of 0 counting as 1) and quantises every sample as
  \<open>clamp(int(sample * scale * 32767), -32767, 32767)\<close>, where \<open>int\<close> truncates toward zero
  (the specification says \<open>round\<close>).  No rendered sample leaves \<open>[-32767, 32767]\<close>, and when
  the peak amplitude is 2.0 every rendered sample is at most 31128 in absolute value, the
  samples of amplitude 2.0 being rendered as exactly that: 31128 is 0.95 * 32767 truncated,
  not rounded.
\<close>

theorem write_wav_truncates:
  "samples \<noteq> []
     \<and> \<not> float_overflows ((95 / 100) / (if peak_abs samples = 0 then 1 else peak_abs samples)) \<longrightarrow>
     (\<exists>out. write_wav_int_samples samples = Inr out
        \<and> out = map (\<lambda>s. max (- 32767) (min 32767 (py_int_of_float
              (s * ((95 / 100) / (if peak_abs samples = 0 then 1 else peak_abs samples)) * 32767))))
            samples
        \<and> list_all (\<lambda>v. - 32767 \<le> v \<and> v \<le> 32767) out
        \<and> (peak_abs samples = 2 \<longrightarrow>
             list_all (\<lambda>v. \<bar>v\<bar> \<le> 31128) out
             \<and> list_all2 (\<lambda>s v. \<bar>s\<bar> = 2 \<longrightarrow> \<bar>v\<bar> = 31128) samples out))"
proof
  assume a: "samples \<noteq> []
     \<and> \<not> float_overflows ((95 / 100) / (if peak_abs samples = 0 then 1 else peak_abs samples))"
  then have ne: "samples \<noteq> []"
    and fin: "\<not> float_overflows ((95 / 100) / (if peak_abs samples = 0 then 1 else peak_abs samples))"
    by blast+
  let ?q = "\<lambda>s. max (- 32767) (min 32767 (py_int_of_float
              (s * ((95 / 100) / (if peak_abs samples = 0 then 1 else peak_abs samples)) * 32767)))"
  have range: "list_all (\<lambda>v. - 32767 \<le> v \<and> v \<le> 32767) (map ?q samples)"
    by (simp add: list_all_iff)
  have peak2: "list_all (\<lambda>v. \<bar>v\<bar> \<le> 31128) (map ?q samples)
      \<and> list_all2 (\<lambda>s v. \<bar>s\<bar> = 2 \<longrightarrow> \<bar>v\<bar> = 31128) samples (map ?q samples)"
    if p: "peak_abs samples = 2"
  proof -
    have q: "?q s = max (- 32767) (min 32767 (py_int_of_float (s * (95 / 200) * 32767)))" for s
      using p by simp
    have small: "\<bar>?q s\<bar> \<le> 31128" if "s \<in> set samples" for s
    proof -
      have "\<bar>s\<bar> \<le> peak_abs samples" using that by (simp add: peak_abs_def)
      then have "\<bar>s * (95 / 200) * 32767\<bar> \<le> 3112865 / 100" using p by (simp add: abs_mult)
      then have "\<bar>py_int_of_float (s * (95 / 200) * 32767)\<bar> \<le> 31128"
        by (rule py_int_of_float_bound)
      then show ?thesis unfolding q by simp
    qed
    have exact: "\<bar>?q s\<bar> = 31128" if "\<bar>s\<bar> = 2" for s
    proof -
      have "s = 2 \<or> s = - 2" using that by auto
      then show ?thesis
      proof
        assume "s = 2"
        then have "s * (95 / 200) * 32767 = 3112865 / 100" by simp
        then show ?thesis unfolding q by (simp only: py_int_of_float_peak)
      next
        assume "s = - 2"
        then have "s * (95 / 200) * 32767 = - (3112865 / 100)" by simp
        then show ?thesis unfolding q by (simp only: py_int_of_float_peak)
      qed
    qed
    show ?thesis using small exact by (simp add: list_all_iff list_all2_conv_all_nth)
  qed
  show "\<exists>out. write_wav_int_samples samples = Inr out
        \<and> out = map ?q samples
        \<and> list_all (\<lambda>v. - 32767 \<le> v \<and> v \<le> 32767) out
        \<and> (peak_abs samples = 2 \<longrightarrow>
             list_all (\<lambda>v. \<bar>v\<bar> \<le> 31128) out
             \<and> list_all2 (\<lambda>s v. \<bar>s\<bar> = 2 \<longrightarrow> \<bar>v\<bar> = 31128) samples out)"
    using write_wav_int_samples_eq [OF ne fin] range peak2 by blast
qed

theorem write_wav_truncates_witness:
  "[2, - 1, 1 / 2] \<noteq> ([]::real list) \<and> peak_abs [2, - 1, 1 / 2] = 2
   \<and> \<not> float_overflows ((95 / 100) / 2)
   \<and> write_wav_int_samples [2, - 1, 1 / 2] = Inr [31128, - 15564, 7782]"
proof -
  have p: "peak_abs [2, - 1, 1 / 2] = 2" by (simp add: peak_abs_def)
  have fin: "\<not> float_overflows ((95 / 100) / 2)"
    by (rule float_overflows_small) simp
  have "\<lfloor>622573 / 20 :: real\<rfloor> = 31128" by (simp add: floor_eq_iff)
  then have f1: "py_int_of_float (622573 / 20) = 31128" by (simp add: py_int_of_float_def)
  have "\<lceil>- (622573 / 40) :: real\<rceil> = - 15564" by (simp add: ceiling_eq_iff)
  then have f2: "py_int_of_float (- (622573 / 40)) = - 15564" by (simp add: py_int_of_float_def)
  have "\<lfloor>622573 / 80 :: real\<rfloor> = 7782" by (simp add: floor_eq_iff)
  then have f3: "py_int_of_float (622573 / 80) = 7782" by (simp add: py_int_of_float_def)
  have h: "[2, - 1, 1 / 2] \<noteq> ([]::real list)
     \<and> \<not> float_overflows ((95 / 100) /
          (if peak_abs [2, - 1, 1 / 2] = 0 then 1 else peak_abs [2, - 1, 1 / 2]))"
    unfolding p using fin by simp
  obtain out where o: "write_wav_int_samples [2, - 1, 1 / 2] = Inr out"
    and e: "out = map (\<lambda>s. max (- 32767) (min 32767 (py_int_of_float
              (s * ((95 / 100) / (if peak_abs [2, - 1, 1 / 2] = 0 then 1 else peak_abs [2, - 1, 1 / 2])) * 32767))))
            [2, - 1, 1 / 2]"
    using write_wav_truncates [of "[2, - 1, 1 / 2]"] h by blast
  have "out = [31128, - 15564, 7782]" unfolding e p by (simp add: f1 f2 f3)
  then show ?thesis using o p fin by simp
qed

text \<open>
  The claim as the specification states it fails on the one-sample signal \<open>[2.0]\<close>: the
  rendered sample is 31128, while \<open>round(0.95 * 32767)\<close> is 31129.
\<close>

theorem write_wav_round_counterexample:
  "write_wav_int_samples [2] = Inr [31128] \<and> round (95 / 100 * 32767 :: real) = 31129"
proof -
  have fin: "\<not> float_overflows ((95 / 100) / 2)"
    by (rule float_overflows_small) simp
  have "\<lfloor>3112865 / 100 :: real\<rfloor> = 31128" by (simp add: floor_eq_iff)
  then have a: "write_wav_int_samples [2] = Inr [31128]"
    using fin by (simp add: write_wav_int_samples_def py_int_of_float_def)
  have "\<lfloor>95 / 100 * 32767 + 1 / 2 :: real\<rfloor> = 31129" by (simp add: floor_eq_iff)
  then have b: "round (95 / 100 * 32767 :: real) = 31129" by (simp add: round_def)
  show ?thesis using a b by simp
qed

section \<open>Log-frequency interpolation (core/dsp.py, freq\_response\_to\_ir, first stage)\<close>

text \<open>
  List indexing \<open>xs[i]\<close> with \<open>i \<ge> 0\<close> and \<open>xs[-1]\<close>: out of range is \<open>IndexError\<close>.
\<close>

definition py_index :: "'a list \<Rightarrow> nat \<Rightarrow> error + 'a" where
  "py_index xs i = (if i < length xs then Inr (xs ! i) else Inl IndexError)"

definition py_last :: "'a list \<Rightarrow> error + 'a" where
  "py_last xs = (if xs = [] then Inl IndexError else Inr (last xs))"

text \<open>
  \<open>math.log\<close> raises \<open>ValueError: math domain error\<close> outside the positive reals.  On a
  positive double its value is a double again, and two different doubles can have the
  same one (\<open>math.log(100.0) == math.log(100.00000000000001)\<close>).  In the interpolation the
  equality of two such values decides an exception, so the logarithm that \<open>math.log\<close>
  computes is a parameter \<open>lg\<close> there, of which nothing is assumed; the real logarithm
  \<open>ln\<close> is one instance.
\<close>

definition math_log :: "(real \<Rightarrow> real) \<Rightarrow> real \<Rightarrow> error + real" where
  "math_log lg x = (if x \<le> 0 then Inl MathDomainError else Inr (lg x))"

text \<open>Float division raises \<open>ZeroDivisionError\<close> on a zero divisor.\<close>

definition py_truediv :: "real \<Rightarrow> real \<Rightarrow> error + real" where
  "py_truediv a b = (if b = 0 then Inl ZeroDivisionError else Inr (a / b))"

text \<open>
  The bisection loop \<open>while hi - lo > 1\<close>.  It is entered with \<open>lo = 0\<close> and
  \<open>hi = len(freqs) - 1\<close> on a non-empty list, so every \<open>freqs[mid]\<close> is in range.
\<close>

function bisect_loop :: "real list \<Rightarrow> real \<Rightarrow> nat \<Rightarrow> nat \<Rightarrow> nat \<times> nat" where
  "bisect_loop freqs bf lo hi =
     (if hi - lo > 1 then
        (let mid = (lo + hi) div 2
         in if freqs ! mid \<le> bf then bisect_loop freqs bf mid hi
            else bisect_loop freqs bf lo mid)
      else (lo, hi))"
  by pat_completeness auto
termination
  by (relation "measure (\<lambda>(freqs, bf, lo, hi). hi - lo)") auto

declare bisect_loop.simps [simp del]

text \<open>
  The interpolation factor \<open>t\<close>: both logarithms of the numerator are taken first, then
  those of the denominator, then the division.  The guard compares the two frequencies,
  the divisor is the difference of their logarithms.
\<close>

definition interp_t :: "(real \<Rightarrow> real) \<Rightarrow> real \<Rightarrow> real \<Rightarrow> real \<Rightarrow> error + real" where
  "interp_t lg bf flo fhi =
     (if fhi \<noteq> flo then
        (case math_log lg bf of Inl e \<Rightarrow> Inl e | Inr lb \<Rightarrow>
         case math_log lg flo of Inl e \<Rightarrow> Inl e | Inr ll \<Rightarrow>
         case math_log lg fhi of Inl e \<Rightarrow> Inl e | Inr lh \<Rightarrow>
         case math_log lg flo of Inl e \<Rightarrow> Inl e | Inr ll' \<Rightarrow>
           py_truediv (lb - ll) (lh - ll'))
      else Inr 0)"

text \<open>The body of \<open>for bf in bin_freqs\<close>: the gain appended for one bin frequency.\<close>

definition interp_gain :: "(real \<Rightarrow> real) \<Rightarrow> real list \<Rightarrow> real list \<Rightarrow> real \<Rightarrow> error + real" where
  "interp_gain lg freqs gains_dB bf =
     (case py_index freqs 0 of Inl e \<Rightarrow> Inl e | Inr f0 \<Rightarrow>
        if bf \<le> f0 then py_index gains_dB 0
        else
          (case py_last freqs of Inl e \<Rightarrow> Inl e | Inr fl \<Rightarrow>
             if bf \<ge> fl then py_last gains_dB
             else
               (case bisect_loop freqs bf 0 (length freqs - 1) of (lo, hi) \<Rightarrow>
                  (case interp_t lg bf (freqs ! lo) (freqs ! hi) of Inl e \<Rightarrow> Inl e | Inr t \<Rightarrow>
                   case py_index gains_dB lo of Inl e \<Rightarrow> Inl e | Inr glo \<Rightarrow>
                   case py_index gains_dB hi of Inl e \<Rightarrow> Inl e | Inr ghi \<Rightarrow>
                     Inr (glo + t * (ghi - glo))))))"

text \<open>The loop itself: the first bin that raises ends it.\<close>

fun interp_gains :: "(real \<Rightarrow> real) \<Rightarrow> real list \<Rightarrow> real list \<Rightarrow> real list \<Rightarrow> error + real list" where
  "interp_gains lg freqs gains_dB [] = Inr []"
| "interp_gains lg freqs gains_dB (bf # bfs) =
     (case interp_gain lg freqs gains_dB bf of Inl e \<Rightarrow> Inl e | Inr g \<Rightarrow>
      case interp_gains lg freqs gains_dB bfs of Inl e \<Rightarrow> Inl e | Inr gs \<Rightarrow> Inr (g # gs))"

text \<open>
  \<open>bin_freqs = [i * sample_rate / n_fft for i in range(half)]\<close>; \<open>ir_length\<close> is a natural
  number here, and the division raises when it is 0.  (For an \<open>int\<close> sample rate beyond
  the doubles the division raises \<open>OverflowError\<close> as well; the statements below keep the
  sample rate below \<open>2^1000\<close> in magnitude where that matters.)
\<close>

definition bin_freqs :: "real \<Rightarrow> nat \<Rightarrow> error + real list" where
  "bin_freqs sample_rate n_fft =
     (if n_fft = 0 then Inl ZeroDivisionError
      else Inr (map (\<lambda>i. real i * sample_rate / real n_fft) [0 ..< n_fft div 2 + 1]))"

section \<open>Minimum-phase synthesis (core/dsp.py, freq\_response\_to\_ir, remaining stages)\<close>

text \<open>
  The accumulation \<open>acc += term(j)\<close> for \<open>j in range(n)\<close>, starting from \<open>0.0\<close>, and the
  angle \<open>2 * math.pi * k * j / n\<close>.
\<close>

definition accumulate :: "(nat \<Rightarrow> real) \<Rightarrow> nat \<Rightarrow> real" where
  "accumulate term n = foldl (\<lambda>acc j. acc + term j) 0 [0 ..< n]"

definition dft_angle :: "nat \<Rightarrow> nat \<Rightarrow> nat \<Rightarrow> real" where
  "dft_angle k j n = 2 * pi * real k * real j / real n"

text \<open>
  The stages between the magnitudes and the exponential, written with the double sums of
  the source: mirrored log-magnitude spectrum, cepstrum, causal window and forward
  transform.  They end with the lists \<open>spec_real\<close> and \<open>spec_imag\<close>, both of length
  \<open>n = len(full_log_mag)\<close>.  None of these steps raises: the argument of \<open>math.log\<close> is at
  least \<open>1e-10\<close>, and only the value of the logarithm matters here, which is that of the
  real logarithm up to rounding.
\<close>

definition log_spectrum :: "real list \<Rightarrow> real list \<times> real list" where
  "log_spectrum magnitudes =
    (let log_mag = map (\<lambda>m. ln (max m (1 / 10 ^ 10))) magnitudes;
         full_log_mag = log_mag @ rev (butlast (tl log_mag));
         n = length full_log_mag;
         cepstrum_real = map (\<lambda>k. accumulate
             (\<lambda>j. full_log_mag ! j * cos (dft_angle k j n) / real n) n) [0 ..< n];
         cepstrum_imag = map (\<lambda>k. accumulate
             (\<lambda>j. full_log_mag ! j * (- sin (dft_angle k j n)) / real n) n) [0 ..< n];
         mp_real0 = (replicate n 0)[0 := cepstrum_real ! 0];
         mp_real1 = foldl (\<lambda>mp k. mp[k := 2 * cepstrum_real ! k]) mp_real0 [1 ..< n div 2];
         mp_imag1 = foldl (\<lambda>mp k. mp[k := 2 * cepstrum_imag ! k]) (replicate n 0) [1 ..< n div 2];
         mp_cepstrum_real =
           (if n mod 2 = 0 then mp_real1[n div 2 := cepstrum_real ! (n div 2)] else mp_real1);
         mp_cepstrum_imag = mp_imag1;
         spec_real = map (\<lambda>k. accumulate
             (\<lambda>j. mp_cepstrum_real ! j * cos (dft_angle k j n)
                  - mp_cepstrum_imag ! j * (- sin (dft_angle k j n))) n) [0 ..< n];
         spec_imag = map (\<lambda>k. accumulate
             (\<lambda>j. mp_cepstrum_real ! j * (- sin (dft_angle k j n))
                  + mp_cepstrum_imag ! j * cos (dft_angle k j n)) n) [0 ..< n]
     in (spec_real, spec_imag))"

text \<open>
  From the interpolated gains to the lists \<open>mp_spec_real\<close> and \<open>mp_spec_imag\<close>.  The
  comprehension \<open>[10 ** (g / 20.0) for g in interp_gains_dB]\<close> raises at the first gain
  whose magnitude is beyond the doubles, the loop \<open>for k in range(n)\<close> at the first
  \<open>math.exp(spec_real[k])\<close> that is.
\<close>

definition min_phase_spectrum :: "real list \<Rightarrow> error + real list \<times> real list" where
  "min_phase_spectrum interp_gains_dB =
    (case collect (map (\<lambda>g. py_pow10 (g / 20)) interp_gains_dB) of
       Inl e \<Rightarrow> Inl e
     | Inr magnitudes \<Rightarrow>
        (case log_spectrum magnitudes of
           (spec_real, spec_imag) \<Rightarrow>
             (case collect (map (\<lambda>k.
                      case math_exp (spec_real ! k) of
                        Inl e \<Rightarrow> Inl e
                      | Inr e_real \<Rightarrow> Inr (e_real * cos (spec_imag ! k), e_real * sin (spec_imag ! k)))
                    [0 ..< length spec_real]) of
                Inl e \<Rightarrow> Inl e
              | Inr mp_spec \<Rightarrow> Inr (map fst mp_spec, map snd mp_spec))))"

text \<open>
  The last double loop of \<open>freq_response_to_ir\<close> and its \<open>return ir[:ir_length]\<close>.
\<close>

definition reference_ir_loop :: "real list \<Rightarrow> real list \<Rightarrow> real list" where
  "reference_ir_loop mp_spec_real mp_spec_imag =
     (let n = length mp_spec_real
      in map (\<lambda>k. accumulate
             (\<lambda>j. mp_spec_real ! j * cos (dft_angle k j n)
                  - mp_spec_imag ! j * (- sin (dft_angle k j n))) n / real n) [0 ..< n])"

definition min_phase_ir :: "real list \<Rightarrow> nat \<Rightarrow> error + real list" where
  "min_phase_ir interp_gains_dB ir_length =
     (case min_phase_spectrum interp_gains_dB of
        Inl e \<Rightarrow> Inl e
      | Inr (mp_spec_real, mp_spec_imag) \<Rightarrow>
          Inr (take ir_length (reference_ir_loop mp_spec_real mp_spec_imag)))"

definition freq_response_to_ir ::
    "(real \<Rightarrow> real) \<Rightarrow> real list \<Rightarrow> real list \<Rightarrow> real \<Rightarrow> nat \<Rightarrow> error + real list" where
  "freq_response_to_ir lg freqs gains_dB sample_rate ir_length =
     (case bin_freqs sample_rate ir_length of Inl e \<Rightarrow> Inl e | Inr bfs \<Rightarrow>
      case interp_gains lg freqs gains_dB bfs of Inl e \<Rightarrow> Inl e | Inr gs \<Rightarrow>
        min_phase_ir gs ir_length)"

subsection \<open>Facts about the interpolation\<close>

lemma bisect_loop_bracket:
  "lo < hi \<Longrightarrow> hi < length freqs \<Longrightarrow> freqs ! lo \<le> bf \<Longrightarrow> bf < freqs ! hi \<Longrightarrow>
   bisect_loop freqs bf lo hi = (l, h) \<Longrightarrow>
   h = Suc l \<and> h < length freqs \<and> freqs ! l \<le> bf \<and> bf < freqs ! h"
proof (induction freqs bf lo hi rule: bisect_loop.induct)
  case (1 freqs bf lo hi)
  show ?case
  proof (cases "hi - lo > 1")
    case False
    then have "bisect_loop freqs bf lo hi = (lo, hi)" by (simp add: bisect_loop.simps)
    then show ?thesis using "1.prems" False by auto
  next
    case True
    let ?mid = "(lo + hi) div 2"
    have mid: "lo < ?mid" "?mid < hi" using True by auto
    show ?thesis
    proof (cases "freqs ! ?mid \<le> bf")
      case le: True
      then have "bisect_loop freqs bf lo hi = bisect_loop freqs bf ?mid hi"
        using True by (simp add: bisect_loop.simps [of freqs bf lo hi] Let_def)
      then have r: "bisect_loop freqs bf ?mid hi = (l, h)" using "1.prems"(5) by simp
      show ?thesis by (rule "1.IH"(1) [OF True refl le mid(2) "1.prems"(2) le "1.prems"(4) r])
    next
      case gt: False
      then have "bisect_loop freqs bf lo hi = bisect_loop freqs bf lo ?mid"
        using True by (simp add: bisect_loop.simps [of freqs bf lo hi] Let_def)
      then have r: "bisect_loop freqs bf lo ?mid = (l, h)" using "1.prems"(5) by simp
      have m: "?mid < length freqs" using mid(2) "1.prems"(2) by simp
      have g: "bf < freqs ! ?mid" using gt by simp
      show ?thesis by (rule "1.IH"(2) [OF True refl gt mid(1) m "1.prems"(3) g r])
    qed
  qed
qed

lemma strict_grid_index:
  assumes "sorted_wrt (<) (freqs::real list)" "k < length freqs" "Suc l < length freqs"
    and "freqs ! l \<le> freqs ! k" "freqs ! k < freqs ! Suc l"
  shows "l = k"
proof -
  have mono: "i < j \<Longrightarrow> j < length freqs \<Longrightarrow> freqs ! i < freqs ! j" for i j
    using assms(1) by (simp add: sorted_wrt_iff_nth_less)
  have "\<not> k < l" using mono [of k l] assms by force
  moreover have "\<not> Suc l \<le> k"
  proof
    assume "Suc l \<le> k"
    then have "freqs ! Suc l \<le> freqs ! k" using mono [of "Suc l" k] assms(2) by (cases "Suc l = k") auto
    then show False using assms(5) by simp
  qed
  ultimately show ?thesis by simp
qed

text \<open>
  At an interior grid frequency that is positive the bisection ends on that grid point
  and its upper neighbour.  The numerator of \<open>t\<close> is 0; the code divides it by the
  difference of the two logarithms, which raises when \<open>math.log\<close> has the same value at
  both.
\<close>

lemma interp_gain_interior:
  assumes grid: "sorted_wrt (<) freqs" and len: "length gains_dB = length freqs"
    and k: "0 < k" "Suc k < length freqs" and pos: "0 < freqs ! k"
  shows "interp_gain lg freqs gains_dB (freqs ! k) =
     (if lg (freqs ! Suc k) = lg (freqs ! k) then Inl ZeroDivisionError else Inr (gains_dB ! k))"
proof -
  let ?bf = "freqs ! k"
  have mono: "i < j \<Longrightarrow> j < length freqs \<Longrightarrow> freqs ! i < freqs ! j" for i j
    using grid by (simp add: sorted_wrt_iff_nth_less)
  have ne: "freqs \<noteq> []" using k by auto
  have f0: "freqs ! 0 < ?bf" using mono [of 0 k] k by simp
  have fl: "?bf < last freqs" using mono [of k "length freqs - 1"] k ne by (simp add: last_conv_nth)
  obtain l h where b: "bisect_loop freqs ?bf 0 (length freqs - 1) = (l, h)" by force
  have "0 < length freqs - 1" "length freqs - 1 < length freqs" "freqs ! 0 \<le> ?bf"
    "?bf < freqs ! (length freqs - 1)"
    using f0 fl k ne by (simp_all add: last_conv_nth)
  from bisect_loop_bracket [OF this b]
  have br: "h = Suc l" "h < length freqs" "freqs ! l \<le> ?bf" "?bf < freqs ! h" by blast+
  have lk: "l = k" using strict_grid_index [OF grid, of k l] k br by simp
  have hk: "h = Suc k" using br lk by simp
  have hi: "?bf < freqs ! Suc k" using br hk by simp
  have t: "interp_t lg ?bf (freqs ! k) (freqs ! Suc k) =
      (if lg (freqs ! Suc k) = lg (freqs ! k) then Inl ZeroDivisionError else Inr 0)"
    using pos hi by (simp add: interp_t_def math_log_def py_truediv_def)
  have b': "bisect_loop freqs ?bf 0 (length freqs - Suc 0) = (k, Suc k)"
    using b lk hk by simp
  show ?thesis
    using f0 fl ne k len
    by (simp add: interp_gain_def py_index_def py_last_def b' t)
qed

lemma interp_gain_below:
  assumes "freqs \<noteq> []" "length gains_dB = length freqs" "bf \<le> freqs ! 0"
  shows "interp_gain lg freqs gains_dB bf = Inr (gains_dB ! 0)"
  using assms by (simp add: interp_gain_def py_index_def)

lemma interp_gain_above:
  assumes grid: "sorted_wrt (<) freqs" and ne: "freqs \<noteq> []"
    and len: "length gains_dB = length freqs" and ab: "last freqs \<le> bf"
  shows "interp_gain lg freqs gains_dB bf = Inr (last gains_dB)"
proof (cases "bf \<le> freqs ! 0")
  case False
  then show ?thesis using ne len ab by (auto simp: interp_gain_def py_index_def py_last_def)
next
  case True
  then have "last freqs \<le> freqs ! 0" using ab by simp
  then have top: "freqs ! (length freqs - 1) \<le> freqs ! 0" using ne by (simp add: last_conv_nth)
  have "\<not> 0 < length freqs - 1"
  proof
    assume "0 < length freqs - 1"
    then have "freqs ! 0 < freqs ! (length freqs - 1)"
      using grid by (simp add: sorted_wrt_iff_nth_less)
    then show False using top by simp
  qed
  then have "length gains_dB = 1" using ne len by (cases freqs) auto
  then have "last gains_dB = gains_dB ! 0" by (cases gains_dB) auto
  then show ?thesis using interp_gain_below [OF ne len True] by simp
qed

text \<open>
  What holds of the interpolation on a strictly increasing, non-empty grid with as many
  gains: \<open>gains_dB[0]\<close> at and below \<open>freqs[0]\<close>, the last gain at and above the last grid
  frequency, and the stored gain at a positive grid frequency whose logarithm \<open>math.log\<close>
  tells from that of the next grid frequency.
\<close>

lemma interp_gain_on_grid:
  assumes "sorted_wrt (<) freqs" "freqs \<noteq> []" "length gains_dB = length freqs"
  shows "bf \<le> freqs ! 0 \<Longrightarrow> interp_gain lg freqs gains_dB bf = Inr (gains_dB ! 0)"
    and "last freqs \<le> bf \<Longrightarrow> interp_gain lg freqs gains_dB bf = Inr (last gains_dB)"
    and "k < length freqs \<Longrightarrow>
         k = 0 \<or> Suc k = length freqs \<or> 0 < freqs ! k \<and> lg (freqs ! Suc k) \<noteq> lg (freqs ! k) \<Longrightarrow>
         interp_gain lg freqs gains_dB (freqs ! k) = Inr (gains_dB ! k)"
proof -
  note grid = assms(1) and ne = assms(2) and len = assms(3)
  show "interp_gain lg freqs gains_dB bf = Inr (gains_dB ! 0)" if "bf \<le> freqs ! 0"
    using that by (rule interp_gain_below [OF ne len])
  show "interp_gain lg freqs gains_dB bf = Inr (last gains_dB)" if "last freqs \<le> bf"
    using that by (rule interp_gain_above [OF grid ne len])
  assume k: "k < length freqs"
    and c: "k = 0 \<or> Suc k = length freqs \<or> 0 < freqs ! k \<and> lg (freqs ! Suc k) \<noteq> lg (freqs ! k)"
  show "interp_gain lg freqs gains_dB (freqs ! k) = Inr (gains_dB ! k)"
  proof (cases "k = 0")
    case True
    then show ?thesis using interp_gain_below [OF ne len, of "freqs ! 0"] by simp
  next
    case k0: False
    show ?thesis
    proof (cases "Suc k = length freqs")
      case True
      then have kf: "length freqs - 1 = k" and kg: "length gains_dB - 1 = k"
        using len by simp_all
      have gne: "gains_dB \<noteq> []" using ne len by auto
      have "last freqs = freqs ! k" "last gains_dB = gains_dB ! k"
        using last_conv_nth [OF ne] last_conv_nth [OF gne] unfolding kf kg by blast+
      then show ?thesis using interp_gain_above [OF grid ne len, of "freqs ! k"] by simp
    next
      case False
      then show ?thesis using interp_gain_interior [OF grid len, of k lg] k k0 c by simp
    qed
  qed
qed


subsection \<open>Facts about the transforms\<close>

text \<open>
  The accumulation loops are finite sums, and the cosines and the sines of the multiples
  of a proper \<open>n\<close>-th part of the full angle sum to 0 (a geometric sum of roots of unity).
\<close>

lemma accumulate_sum: "accumulate f n = (\<Sum>j<n. f j)"
  by (induction n) (simp_all add: accumulate_def)

lemma accumulate_cong:
  assumes "\<And>j. j < n \<Longrightarrow> f j = g j"
  shows "accumulate f n = accumulate g n"
  unfolding accumulate_sum using assms by (intro sum.cong) simp_all

lemma map_upt_cong:
  assumes "\<And>k. k < n \<Longrightarrow> f k = g k"
  shows "map f [0 ..< n] = map g [0 ..< n]"
  using assms by (intro map_cong) simp_all

lemma accumulate_first:
  assumes "0 < n"
  shows "accumulate (\<lambda>j. if j = 0 then c j else 0) n = c 0"
  using assms by (simp add: accumulate_sum)

lemma root_of_unity_not_one:
  assumes "0 < k" "k < n"
  shows "cis (2 * pi * real k / real n) \<noteq> 1"
proof
  assume "cis (2 * pi * real k / real n) = 1"
  then have "cos (2 * pi * real k / real n) = 1" by (simp add: complex_eq_iff)
  then obtain m :: int where m: "2 * pi * real k / real n = real_of_int m * 2 * pi"
    unfolding cos_one_2pi_int by blast
  have n0: "real n \<noteq> 0" using assms by simp
  have "pi * (2 * real k) = pi * (2 * (real_of_int m * real n))"
    using m n0 by (simp add: field_simps)
  then have "2 * real k = 2 * (real_of_int m * real n)"
    by (simp only: mult_left_cancel [OF pi_neq_zero])
  then have "real k = real_of_int m * real n" by simp
  then have "real_of_int (int k) = real_of_int (m * int n)" by simp
  then have e: "int k = m * int n" by (simp only: of_int_eq_iff)
  show False
  proof (cases "m \<le> 0")
    case True
    then have "m * int n \<le> 0" by (simp add: mult_le_0_iff)
    then show False using e assms by simp
  next
    case False
    then have "1 \<le> m" by simp
    then have "1 * int n \<le> m * int n" by (intro mult_right_mono) simp_all
    then have "int n \<le> int k" unfolding e by simp
    then show False using assms by simp
  qed
qed

lemma cis_sum_roots:
  assumes "0 < k" "k < n"
  shows "(\<Sum>j<n. cis (dft_angle k j n)) = 0"
proof -
  let ?x = "cis (2 * pi * real k / real n)"
  have n: "0 < n" using assms by simp
  have pw: "?x ^ j = cis (dft_angle k j n)" for j
    by (simp add: DeMoivre dft_angle_def mult_ac)
  have "?x ^ n = cis (2 * pi * real k)"
    using n by (simp add: DeMoivre)
  also have "\<dots> = 1" by (rule cis_multiple_2pi) simp
  finally have one: "?x ^ n = 1" .
  have "(\<Sum>j<n. ?x ^ j) = (?x ^ n - 1) / (?x - 1)"
    by (rule geometric_sum [OF root_of_unity_not_one [OF assms]])
  then have "(\<Sum>j<n. ?x ^ j) = 0" unfolding one by simp
  then show ?thesis unfolding pw .
qed

lemma cos_sum_roots:
  assumes "0 < k" "k < n"
  shows "(\<Sum>j<n. cos (dft_angle k j n)) = 0"
proof -
  have "Re (\<Sum>j<n. cis (dft_angle k j n)) = 0" using cis_sum_roots [OF assms] by simp
  then show ?thesis by simp
qed

lemma cos_sum_dc: "(\<Sum>j<n. cos (dft_angle 0 j n)) = real n"
  by (simp add: dft_angle_def)

lemma sin_sum_roots:
  assumes "k < n"
  shows "(\<Sum>j<n. sin (dft_angle k j n)) = 0"
proof (cases "k = 0")
  case True
  then show ?thesis by (simp add: dft_angle_def)
next
  case False
  then have "Im (\<Sum>j<n. cis (dft_angle k j n)) = 0" using cis_sum_roots [of k n] assms by simp
  then show ?thesis by simp
qed

lemma foldl_update_fixed:
  "\<forall>k \<in> set ks. 2 * c ! k = (c ! k :: real) \<Longrightarrow>
   foldl (\<lambda>mp k. mp[k := 2 * c ! k]) c ks = c"
proof (induction ks)
  case Nil
  show ?case by simp
next
  case (Cons k ks)
  have e: "2 * c ! k = c ! k" using Cons.prems by (meson list.set_intros(1))
  have upd: "c[k := 2 * c ! k] = c" unfolding e by (rule list_update_id)
  have "\<forall>k \<in> set ks. 2 * c ! k = c ! k" using Cons.prems by (meson list.set_intros(2))
  then have "foldl (\<lambda>mp k. mp[k := 2 * c ! k]) c ks = c" by (rule Cons.IH)
  then show ?case unfolding foldl_Cons upd .
qed

text \<open>
  The last loop on a constant real spectrum: the constant at sample 0, and 0 elsewhere.
\<close>

lemma reference_ir_loop_constant:
  assumes n: "0 < n"
  shows "reference_ir_loop (replicate n a) (replicate n 0) = map (\<lambda>k. if k = 0 then a else 0) [0 ..< n]"
proof -
  have "map (\<lambda>k. accumulate (\<lambda>j. replicate n a ! j * cos (dft_angle k j n)
        - replicate n 0 ! j * (- sin (dft_angle k j n))) n / real n) [0 ..< n]
      = map (\<lambda>k. if k = 0 then a else 0) [0 ..< n]"
  proof (rule map_upt_cong)
    fix k assume k: "k < n"
    have "accumulate (\<lambda>j. replicate n a ! j * cos (dft_angle k j n)
        - replicate n 0 ! j * (- sin (dft_angle k j n))) n
        = accumulate (\<lambda>j. a * cos (dft_angle k j n)) n"
      by (rule accumulate_cong) simp
    also have "\<dots> = a * (\<Sum>j<n. cos (dft_angle k j n))"
      by (simp add: accumulate_sum sum_distrib_left)
    also have "\<dots> = (if k = 0 then a * real n else 0)"
      using cos_sum_roots [of k n] cos_sum_dc [of n] k by simp
    finally have acc: "accumulate (\<lambda>j. replicate n a ! j * cos (dft_angle k j n)
        - replicate n 0 ! j * (- sin (dft_angle k j n))) n = (if k = 0 then a * real n else 0)" .
    show "accumulate (\<lambda>j. replicate n a ! j * cos (dft_angle k j n)
        - replicate n 0 ! j * (- sin (dft_angle k j n))) n / real n
        = (if k = 0 then a else 0)"
      unfolding acc using n by simp
  qed
  then show ?thesis by (simp add: reference_ir_loop_def Let_def)
qed

text \<open>
  On magnitudes that are all equal the log-spectrum is constant: the logarithms are a
  constant \<open>l\<close>, the cepstrum is \<open>l\<close> at index 0 and 0 elsewhere, the window leaves it as it
  is, and its transform is \<open>l\<close> at every bin, with imaginary part 0.
\<close>

lemma log_spectrum_constant:
  assumes "0 < h"
  shows "log_spectrum (replicate h a) =
     (replicate (h + (h - 2)) (ln (max a (1 / 10 ^ 10))), replicate (h + (h - 2)) 0)"
proof -
  let ?n = "h + (h - 2)"
  let ?l = "ln (max a (1 / 10 ^ 10))"
  let ?c = "map (\<lambda>k. if k = 0 then ?l else 0) [0 ..< ?n]"
  have n: "0 < ?n" using assms by simp
  have c_nth: "?c ! j = (if j = 0 then ?l else 0)" if "j < ?n" for j
    using that by (simp del: upt_Suc)
  have f2: "map (\<lambda>m. ln (max m (1 / 10 ^ 10))) (replicate h a) = replicate h ?l"
    by simp
  have f3: "replicate h ?l @ rev (butlast (tl (replicate h ?l))) = replicate ?n ?l"
    by (cases h) (simp_all add: butlast_conv_take replicate_add [symmetric])
  have f4: "length (replicate ?n ?l) = ?n" by simp
  have f5: "map (\<lambda>k. accumulate (\<lambda>j. replicate ?n ?l ! j * cos (dft_angle k j ?n) / real ?n) ?n)
      [0 ..< ?n] = ?c"
  proof (rule map_upt_cong)
    fix k assume k: "k < ?n"
    have "accumulate (\<lambda>j. replicate ?n ?l ! j * cos (dft_angle k j ?n) / real ?n) ?n
        = accumulate (\<lambda>j. ?l * cos (dft_angle k j ?n) / real ?n) ?n"
      by (rule accumulate_cong) simp
    also have "\<dots> = ?l * (\<Sum>j<?n. cos (dft_angle k j ?n)) / real ?n"
      by (simp add: accumulate_sum sum_distrib_left sum_divide_distrib)
    also have "\<dots> = (if k = 0 then ?l else 0)"
      using cos_sum_roots [of k ?n] cos_sum_dc [of ?n] k n by simp
    finally show "accumulate (\<lambda>j. replicate ?n ?l ! j * cos (dft_angle k j ?n) / real ?n) ?n
        = (if k = 0 then ?l else 0)" .
  qed
  have f6: "map (\<lambda>k. accumulate (\<lambda>j. replicate ?n ?l ! j * (- sin (dft_angle k j ?n)) / real ?n) ?n)
      [0 ..< ?n] = replicate ?n 0"
  proof -
    have "accumulate (\<lambda>j. replicate ?n ?l ! j * (- sin (dft_angle k j ?n)) / real ?n) ?n = 0"
      if k: "k < ?n" for k
    proof -
      have "accumulate (\<lambda>j. replicate ?n ?l ! j * (- sin (dft_angle k j ?n)) / real ?n) ?n
          = accumulate (\<lambda>j. - ?l * sin (dft_angle k j ?n) / real ?n) ?n"
        by (rule accumulate_cong) simp
      also have "\<dots> = - ?l * (\<Sum>j<?n. sin (dft_angle k j ?n)) / real ?n"
        unfolding accumulate_sum sum_distrib_left sum_divide_distrib ..
      also have "\<dots> = 0" unfolding sin_sum_roots [OF k] by simp
      finally show ?thesis .
    qed
    then have "map (\<lambda>k. accumulate (\<lambda>j. replicate ?n ?l ! j * (- sin (dft_angle k j ?n)) / real ?n) ?n)
        [0 ..< ?n] = map (\<lambda>k. 0) [0 ..< ?n]"
      by (intro map_upt_cong)
    then show ?thesis by (simp add: map_replicate_const)
  qed
  have f7: "(replicate ?n 0)[0 := ?c ! 0] = ?c"
    using n by (simp add: list_eq_iff_nth_eq nth_list_update del: upt_Suc)
  have f8: "foldl (\<lambda>mp k. mp[k := 2 * ?c ! k]) ?c [1 ..< ?n div 2] = ?c"
  proof (rule foldl_update_fixed, rule ballI)
    fix k assume "k \<in> set [1 ..< ?n div 2]"
    then have "0 < k" "k < ?n" by auto
    then show "2 * ?c ! k = ?c ! k" using c_nth [of k] by simp
  qed
  have f8i: "foldl (\<lambda>mp k. mp[k := 2 * replicate ?n (0::real) ! k]) (replicate ?n 0) [1 ..< ?n div 2]
      = replicate ?n 0"
  proof (rule foldl_update_fixed, rule ballI)
    fix k assume "k \<in> set [1 ..< ?n div 2]"
    then have "k < ?n" by auto
    then show "2 * replicate ?n (0::real) ! k = replicate ?n 0 ! k" by simp
  qed
  have f9: "(if ?n mod 2 = 0 then ?c[?n div 2 := ?c ! (?n div 2)] else ?c) = ?c"
    by (simp only: list_update_id if_cancel)
  have f10: "map (\<lambda>k. accumulate (\<lambda>j. ?c ! j * cos (dft_angle k j ?n)
        - replicate ?n 0 ! j * (- sin (dft_angle k j ?n))) ?n) [0 ..< ?n] = replicate ?n ?l"
  proof -
    have "accumulate (\<lambda>j. ?c ! j * cos (dft_angle k j ?n)
        - replicate ?n 0 ! j * (- sin (dft_angle k j ?n))) ?n = ?l" for k
    proof -
      have "accumulate (\<lambda>j. ?c ! j * cos (dft_angle k j ?n)
          - replicate ?n 0 ! j * (- sin (dft_angle k j ?n))) ?n
          = accumulate (\<lambda>j. if j = 0 then ?l * cos (dft_angle k j ?n) else 0) ?n"
        by (rule accumulate_cong) (simp add: c_nth)
      also have "\<dots> = ?l * cos (dft_angle k 0 ?n)" by (rule accumulate_first [OF n])
      also have "\<dots> = ?l" by (simp add: dft_angle_def)
      finally show ?thesis .
    qed
    then show ?thesis by (simp only: map_replicate_const length_upt diff_zero)
  qed
  have f11: "map (\<lambda>k. accumulate (\<lambda>j. ?c ! j * (- sin (dft_angle k j ?n))
        + replicate ?n 0 ! j * cos (dft_angle k j ?n)) ?n) [0 ..< ?n] = replicate ?n 0"
  proof -
    have "accumulate (\<lambda>j. ?c ! j * (- sin (dft_angle k j ?n))
        + replicate ?n 0 ! j * cos (dft_angle k j ?n)) ?n = 0" for k
    proof -
      have "accumulate (\<lambda>j. ?c ! j * (- sin (dft_angle k j ?n))
          + replicate ?n 0 ! j * cos (dft_angle k j ?n)) ?n
          = accumulate (\<lambda>j. if j = 0 then ?l * (- sin (dft_angle k j ?n)) else 0) ?n"
        by (rule accumulate_cong) (simp add: c_nth)
      also have "\<dots> = ?l * (- sin (dft_angle k 0 ?n))" by (rule accumulate_first [OF n])
      also have "\<dots> = 0" by (simp add: dft_angle_def)
      finally show ?thesis .
    qed
    then show ?thesis by (simp only: map_replicate_const length_upt diff_zero)
  qed
  show ?thesis
    unfolding log_spectrum_def Let_def f2 f3 f4 f5 f6 f7 f8 f8i f9 f10 f11 ..
qed

text \<open>
  So on interpolated gains that are all equal to \<open>g\<close>, with \<open>10 ** (g / 20)\<close> within the
  doubles, the spectrum is the constant \<open>max(10 ** (g / 20), 1e-10)\<close>, and the impulse
  response is that constant at sample 0 and 0 elsewhere.
\<close>

lemma clipped_magnitude:
  "exp (ln (max a (1 / 10 ^ 10))) = max a (1 / 10 ^ 10 :: real)"
proof -
  have "(0::real) < 1 / 10 ^ 10" by simp
  then have "0 < max a (1 / 10 ^ 10 :: real)" by (rule less_max_iff_disj [THEN iffD2, OF disjI2])
  then show ?thesis by simp
qed

lemma clipped_magnitude_finite:
  assumes "\<not> float_overflows (10 powr x)"
  shows "\<not> float_overflows (max (10 powr x) (1 / 10 ^ 10))"
proof -
  have "\<not> float_overflows (1 / 10 ^ 10)" by (rule float_overflows_small) simp
  then show ?thesis using assms by (simp add: max_def)
qed

lemma min_phase_spectrum_constant:
  assumes h: "0 < h" and fin: "\<not> float_overflows (10 powr (g / 20))"
  shows "min_phase_spectrum (replicate h g) =
     Inr (replicate (h + (h - 2)) (max (10 powr (g / 20)) (1 / 10 ^ 10)), replicate (h + (h - 2)) 0)"
proof -
  let ?n = "h + (h - 2)"
  let ?a = "max (10 powr (g / 20)) (1 / 10 ^ 10)"
  have m: "collect (map (\<lambda>g. py_pow10 (g / 20)) (replicate h g)) = Inr (replicate h (10 powr (g / 20)))"
    using collect_map_Inr [of "replicate h g" "\<lambda>g. py_pow10 (g / 20)" "\<lambda>g. 10 powr (g / 20)"] fin
    by (simp add: py_pow10_def)
  have e: "math_exp (ln ?a) = Inr ?a"
    using clipped_magnitude_finite [OF fin] by (simp add: math_exp_def clipped_magnitude)
  have x: "collect (map (\<lambda>k.
        case math_exp (replicate ?n (ln ?a) ! k) of
          Inl e \<Rightarrow> Inl e
        | Inr e_real \<Rightarrow> Inr (e_real * cos (replicate ?n 0 ! k), e_real * sin (replicate ?n 0 ! k)))
      [0 ..< length (replicate ?n (ln ?a))]) = Inr (map (\<lambda>k. (?a, 0)) [0 ..< ?n])"
    unfolding length_replicate
  proof (rule collect_map_Inr)
    fix k assume "k \<in> set [0 ..< ?n]"
    then have k: "k < ?n" by simp
    show "(case math_exp (replicate ?n (ln ?a) ! k) of
          Inl e \<Rightarrow> Inl e
        | Inr e_real \<Rightarrow> Inr (e_real * cos (replicate ?n 0 ! k), e_real * sin (replicate ?n 0 ! k)))
        = Inr (?a, 0)"
      unfolding nth_replicate [OF k] e by simp
  qed
  show ?thesis
    unfolding min_phase_spectrum_def m sum.case log_spectrum_constant [OF h] prod.case x
    by (simp add: map_replicate_const comp_def)
qed

lemma min_phase_spectrum_overflow:
  assumes "0 < h" and "float_overflows (10 powr (g / 20))"
  shows "min_phase_spectrum (replicate h g) = Inl OverflowError"
proof -
  obtain h' where h': "h = Suc h'" using assms(1) by (cases h) simp_all
  have "collect (map (\<lambda>g. py_pow10 (g / 20)) (replicate h g)) = Inl OverflowError"
    unfolding h' using assms(2) by (simp add: py_pow10_def)
  then show ?thesis by (simp add: min_phase_spectrum_def)
qed

lemma unit_impulse_map:
  assumes "0 < n"
  shows "map (\<lambda>k. if k = 0 then a else (0::real)) [0 ..< n] = a # replicate (n - 1) 0"
  using assms by (simp add: list_eq_iff_nth_eq nth_Cons')

lemma take_unit_impulse:
  assumes "0 < m"
  shows "take m (a # replicate k (0::real)) = a # replicate (min m (Suc k) - 1) 0"
  using assms by (cases m) simp_all

lemma min_phase_ir_constant:
  assumes h: "0 < h" and fin: "\<not> float_overflows (10 powr (g / 20))" and L: "0 < ir_length"
  shows "min_phase_ir (replicate h g) ir_length =
     Inr (max (10 powr (g / 20)) (1 / 10 ^ 10)
          # replicate (min ir_length (Suc (h + (h - 2) - 1)) - 1) 0)"
proof -
  let ?n = "h + (h - 2)"
  let ?a = "max (10 powr (g / 20)) (1 / 10 ^ 10)"
  have n: "0 < ?n" using h by simp
  have "take ir_length (reference_ir_loop (replicate ?n ?a) (replicate ?n 0))
      = take ir_length (?a # replicate (?n - 1) 0)"
    unfolding reference_ir_loop_constant [OF n] unit_impulse_map [OF n] ..
  also have "\<dots> = ?a # replicate (min ir_length (Suc (?n - 1)) - 1) 0"
    by (rule take_unit_impulse [OF L])
  finally show ?thesis
    unfolding min_phase_ir_def min_phase_spectrum_constant [OF h fin] by simp
qed

text \<open>
  The synthesis of a curve that the interpolation maps to the constant gain \<open>g\<close> at
  every bin, for \<open>ir_length > 0\<close>: the impulse response has between 1 and \<open>ir_length\<close>
  samples, \<open>ir_length\<close> of them when that is even.
\<close>

lemma constant_gain_ir:
  assumes gs: "\<And>bfs. interp_gains lg freqs gains_dB bfs = Inr (replicate (length bfs) g)"
    and L: "0 < ir_length"
  shows "\<not> float_overflows (10 powr (g / 20)) \<Longrightarrow>
      \<exists>m. 0 < m \<and> m \<le> ir_length \<and> (even ir_length \<longrightarrow> m = ir_length)
        \<and> freq_response_to_ir lg freqs gains_dB sample_rate ir_length
            = Inr (max (10 powr (g / 20)) (1 / 10 ^ 10) # replicate (m - 1) 0)"
    and "float_overflows (10 powr (g / 20)) \<Longrightarrow>
      freq_response_to_ir lg freqs gains_dB sample_rate ir_length = Inl OverflowError"
proof -
  let ?h = "ir_length div 2 + 1"
  let ?n = "?h + (?h - 2)"
  have r: "freq_response_to_ir lg freqs gains_dB sample_rate ir_length
      = min_phase_ir (replicate ?h g) ir_length"
    using L by (simp add: freq_response_to_ir_def bin_freqs_def gs)
  show "\<exists>m. 0 < m \<and> m \<le> ir_length \<and> (even ir_length \<longrightarrow> m = ir_length)
        \<and> freq_response_to_ir lg freqs gains_dB sample_rate ir_length
            = Inr (max (10 powr (g / 20)) (1 / 10 ^ 10) # replicate (m - 1) 0)"
    if fin: "\<not> float_overflows (10 powr (g / 20))"
  proof -
    have ir: "min_phase_ir (replicate ?h g) ir_length
        = Inr (max (10 powr (g / 20)) (1 / 10 ^ 10)
               # replicate (min ir_length (Suc (?n - 1)) - 1) 0)"
      by (rule min_phase_ir_constant [OF _ fin L]) simp
    let ?m = "min ir_length (Suc (?n - 1))"
    have "0 < ?m" using L by simp
    moreover have "?m \<le> ir_length" by simp
    moreover have "even ir_length \<longrightarrow> ?m = ir_length" using L by (auto elim!: evenE)
    ultimately show ?thesis using r ir by metis
  qed
  show "freq_response_to_ir lg freqs gains_dB sample_rate ir_length = Inl OverflowError"
    if "float_overflows (10 powr (g / 20))"
  proof -
    have "min_phase_spectrum (replicate ?h g) = Inl OverflowError"
      by (rule min_phase_spectrum_overflow [OF _ that]) simp
    then show ?thesis unfolding r min_phase_ir_def by (simp only: sum.case)
  qed
qed

subsection \<open>Curves of fewer than two points\<close>





text \<open>
  A gain of at most 6000 dB has a magnitude of at most \<open>10^300\<close>, within the doubles; a
  gain of at least 6200 dB has one of at least \<open>10^310\<close>, beyond them.
\<close>

lemma moderate_gain_finite:
  assumes "g \<le> 6000"
  shows "\<not> float_overflows (10 powr (g / 20))"
proof (rule float_overflows_small)
  have "10 powr (g / 20) \<le> 10 powr (300::real)" using assms by (intro powr_mono) simp_all
  also have "\<dots> = 10 ^ 300" by (simp add: powr_numeral)
  also have "\<dots> \<le> (2::real) ^ 1000" by simp
  finally show "\<bar>10 powr (g / 20)\<bar> \<le> 2 ^ 1000" by simp
qed







subsection \<open>The flat curve\<close>

lemma interp_gain_flat:
  assumes grid: "sorted_wrt (<) freqs" and ne: "freqs \<noteq> []" and pos: "0 < freqs ! 0"
    and len: "length gains_dB = length freqs"
    and logs: "\<forall>i. Suc i < length freqs \<longrightarrow> lg (freqs ! Suc i) \<noteq> lg (freqs ! i)"
    and flat: "\<forall>g \<in> set gains_dB. g = 0"
  shows "interp_gain lg freqs gains_dB bf = Inr 0"
proof -
  have zero: "gains_dB ! i = 0" if "i < length freqs" for i
    using that len flat by (metis nth_mem)
  have gne: "gains_dB \<noteq> []" using ne len by auto
  have lastz: "last gains_dB = 0" using flat gne by simp
  show ?thesis
  proof (cases "bf \<le> freqs ! 0")
    case True
    then show ?thesis using interp_gain_below [OF ne len True] zero [of 0] ne by simp
  next
    case below: False
    show ?thesis
    proof (cases "last freqs \<le> bf")
      case True
      then show ?thesis using interp_gain_above [OF grid ne len True] lastz by simp
    next
      case above: False
      obtain l h where b: "bisect_loop freqs bf 0 (length freqs - 1) = (l, h)" by force
      have top: "bf < freqs ! (length freqs - 1)" using above ne by (simp add: last_conv_nth)
      have "0 < length freqs - 1"
      proof (rule ccontr)
        assume "\<not> 0 < length freqs - 1"
        then have "length freqs - 1 = 0" by simp
        then show False using top below by simp
      qed
      moreover have "length freqs - 1 < length freqs" using ne by simp
      moreover have "freqs ! 0 \<le> bf" using below by simp
      ultimately have br: "h = Suc l" "h < length freqs" "freqs ! l \<le> bf" "bf < freqs ! h"
        using bisect_loop_bracket [OF _ _ _ top b] by blast+
      have "freqs ! 0 \<le> freqs ! l"
        using grid br(1,2) by (cases "l = 0") (auto simp: sorted_wrt_iff_nth_less less_imp_le)
      then have lpos: "0 < freqs ! l" using pos by simp
      have bpos: "0 < bf" using lpos br(3) by simp
      have hpos: "0 < freqs ! h" using bpos br(4) by simp
      have lt: "freqs ! l < freqs ! h" using br(3,4) by simp
      have "lg (freqs ! h) \<noteq> lg (freqs ! l)" using logs br(1,2) by simp
      then have t: "interp_t lg bf (freqs ! l) (freqs ! h)
          = Inr ((lg bf - lg (freqs ! l)) / (lg (freqs ! h) - lg (freqs ! l)))"
        using lt lpos bpos hpos by (simp add: interp_t_def math_log_def py_truediv_def)
      have b': "bisect_loop freqs bf 0 (length freqs - Suc 0) = (l, h)" using b by simp
      have "l < length freqs" using br(1,2) by simp
      then show ?thesis
        using below above ne len br(2) zero [of l] zero [of h]
        by (simp add: interp_gain_def py_index_def py_last_def b' t)
    qed
  qed
qed

lemma interp_gains_flat:
  assumes "sorted_wrt (<) freqs" "freqs \<noteq> []" "0 < freqs ! 0"
    "length gains_dB = length freqs"
    "\<forall>i. Suc i < length freqs \<longrightarrow> lg (freqs ! Suc i) \<noteq> lg (freqs ! i)"
    "\<forall>g \<in> set gains_dB. g = 0"
  shows "interp_gains lg freqs gains_dB bfs = Inr (replicate (length bfs) 0)"
  by (induction bfs) (simp_all add: interp_gain_flat [OF assms])

lemma unit_magnitude: "max (10 powr (0 / 20)) (1 / 10 ^ 10) = (1::real)"
  by simp

text \<open>
  C3, as the code has it.  For a curve whose gains are constantly 0 dB over a strictly
  increasing grid of positive frequencies, no two neighbours of which have the same
  \<open>math.log\<close>, and for every \<open>ir_length > 0\<close> and sample rate below \<open>2^1000\<close> in magnitude,
  the reference synthesis returns the unit sample: sample 0 is 1 and every other sample
  is 0 (so both are within 1e-3).  It has \<open>ir_length\<close> samples when \<open>ir_length\<close> is even.
  The values are those of exact arithmetic.
\<close>

theorem flat_curve_unit_impulse:
  "sorted_wrt (<) freqs \<and> freqs \<noteq> [] \<and> 0 < freqs ! 0 \<and> length gains_dB = length freqs
     \<and> (\<forall>i. Suc i < length freqs \<longrightarrow> lg (freqs ! Suc i) \<noteq> lg (freqs ! i))
     \<and> (\<forall>g \<in> set gains_dB. g = 0) \<and> 0 < ir_length \<and> \<bar>sample_rate\<bar> < 2 ^ 1000 \<longrightarrow>
   (\<exists>m. 0 < m \<and> m \<le> ir_length \<and> (even ir_length \<longrightarrow> m = ir_length)
      \<and> freq_response_to_ir lg freqs gains_dB sample_rate ir_length = Inr (1 # replicate (m - 1) 0))"
proof
  assume a: "sorted_wrt (<) freqs \<and> freqs \<noteq> [] \<and> 0 < freqs ! 0 \<and> length gains_dB = length freqs
     \<and> (\<forall>i. Suc i < length freqs \<longrightarrow> lg (freqs ! Suc i) \<noteq> lg (freqs ! i))
     \<and> (\<forall>g \<in> set gains_dB. g = 0) \<and> 0 < ir_length \<and> \<bar>sample_rate\<bar> < 2 ^ 1000"
  have L: "0 < ir_length" using a by simp
  have g: "interp_gains lg freqs gains_dB bfs = Inr (replicate (length bfs) 0)" for bfs
    using a by (intro interp_gains_flat) simp_all
  have fin: "\<not> float_overflows (10 powr (0 / 20))"
    by (rule moderate_gain_finite) simp
  show "\<exists>m. 0 < m \<and> m \<le> ir_length \<and> (even ir_length \<longrightarrow> m = ir_length)
      \<and> freq_response_to_ir lg freqs gains_dB sample_rate ir_length = Inr (1 # replicate (m - 1) 0)"
    using constant_gain_ir(1) [of lg freqs gains_dB 0 ir_length sample_rate, OF g L fin]
    unfolding unit_magnitude .
qed

theorem flat_curve_unit_impulse_witness:
  "sorted_wrt (<) [20, 20000 :: real] \<and> (0::real) < [20, 20000] ! 0
   \<and> ln ([20, 20000] ! 1) \<noteq> ln ([20, 20000 :: real] ! 0) \<and> \<bar>48000 :: real\<bar> < 2 ^ 1000
   \<and> freq_response_to_ir ln [20, 20000] [0, 0] 48000 4 = Inr [1, 0, 0, 0]"
proof -
  have sr: "\<bar>48000 :: real\<bar> < 2 ^ 1000" by simp
  have grid: "sorted_wrt (<) [20, 20000 :: real] \<and> (0::real) < [20, 20000] ! 0
      \<and> ln ([20, 20000] ! 1) \<noteq> ln ([20, 20000 :: real] ! 0)"
    by simp
  have logs: "\<forall>i. Suc i < length [20, 20000 :: real]
      \<longrightarrow> ln ([20, 20000 :: real] ! Suc i) \<noteq> ln ([20, 20000 :: real] ! i)"
    by simp
  have h: "sorted_wrt (<) [20, 20000 :: real] \<and> [20, 20000 :: real] \<noteq> []
      \<and> 0 < [20, 20000 :: real] ! 0 \<and> length [0, 0 :: real] = length [20, 20000 :: real]
      \<and> (\<forall>i. Suc i < length [20, 20000 :: real]
            \<longrightarrow> ln ([20, 20000 :: real] ! Suc i) \<noteq> ln ([20, 20000 :: real] ! i))
      \<and> (\<forall>g \<in> set [0, 0 :: real]. g = 0) \<and> (0::nat) < 4 \<and> \<bar>48000 :: real\<bar> < 2 ^ 1000"
    using sr logs by (intro conjI) simp_all
  have "\<exists>m. 0 < m \<and> m \<le> 4 \<and> (even (4::nat) \<longrightarrow> m = 4)
      \<and> freq_response_to_ir ln [20, 20000] [0, 0] 48000 4 = Inr (1 # replicate (m - 1) 0)"
    using flat_curve_unit_impulse
      [where lg = ln and freqs = "[20, 20000]" and gains_dB = "[0, 0]" and ir_length = 4
        and sample_rate = 48000] h
    by blast
  then obtain m where m: "even (4::nat) \<longrightarrow> m = 4"
    and r: "freq_response_to_ir ln [20, 20000] [0, 0] 48000 4 = Inr (1 # replicate (m - 1) 0)"
    by blast
  have "m = 4" using m by simp
  then have "replicate (m - 1) (0::real) = [0, 0, 0]" by (simp add: numeral_3_eq_3)
  then have "freq_response_to_ir ln [20, 20000] [0, 0] 48000 4 = Inr [1, 0, 0, 0]"
    unfolding r by (simp only:)
  then show ?thesis using grid sr by blast
qed

text \<open>
  The claim as the specification states it, for every strictly increasing grid, fails on
  the grid \<open>[0, 20000]\<close>, which starts at 0 Hz: the bin at 12000 Hz lies inside the grid,
  the interpolation takes \<open>math.log(freqs[0])\<close>, and \<open>math.log(0.0)\<close> raises, so no impulse
  response is returned.
\<close>

lemma upt_3: "[0 ..< 3] = [0, 1, 2]"
  by (simp add: eval_nat_numeral)

lemma two_point_bins: "bin_freqs 48000 4 = Inr [0, 12000, 24000]"
proof -
  have "(4::nat) div 2 + 1 = 3" by simp
  then have "[0 ..< 4 div 2 + 1] = [0, 1, 2]" using upt_3 by (simp only:)
  then show ?thesis unfolding bin_freqs_def by simp
qed

lemma zero_hertz_grid_raises:
  "interp_gains lg [0, 20000] [0, 0] [0, 12000, 24000] = Inl MathDomainError"
  by (simp add: interp_gain_def py_index_def py_last_def bisect_loop.simps interp_t_def
      math_log_def)

theorem flat_curve_counterexample:
  "sorted_wrt (<) [0, 20000 :: real] \<and> list_all (\<lambda>g. g = 0) [0, 0 :: real]
   \<and> freq_response_to_ir ln [0, 20000] [0, 0] 48000 4 = Inl MathDomainError"
  unfolding freq_response_to_ir_def two_point_bins sum.case zero_hertz_grid_raises by simp

subsection \<open>The last loop against the inverse transform\<close>

text \<open>
  \<open>freq_response_to_ir_fast\<close> ends with \<open>np.fft.ifft(min_phase_spec).real\<close>.  By the
  formula that numpy documents for \<open>ifft\<close>, sample \<open>m\<close> of it is the real part of
  \<open>(1/n) * sum over k of a[k] * exp(2 pi i m k / n)\<close>, which for \<open>a = re + i im\<close> is the sum
  below.
\<close>

definition np_ifft_real :: "real list \<Rightarrow> real list \<Rightarrow> real list" where
  "np_ifft_real re im =
     (let n = length re
      in map (\<lambda>m. accumulate
             (\<lambda>k. re ! k * cos (dft_angle m k n) - im ! k * sin (dft_angle m k n)) n / real n)
           [0 ..< n])"

text \<open>
  The last loop of the reference has \<open>- mp_spec_imag[j] * (-sin(angle))\<close> where the inverse
  transform has \<open>- im[k] * sin(angle)\<close>: it is the forward kernel once more.  Its output is
  therefore the inverse transform read backwards in time.
\<close>

lemma dft_angle_reversed:
  assumes "k < n"
  shows "cos (dft_angle ((n - k) mod n) j n) = cos (dft_angle k j n)"
    and "sin (dft_angle ((n - k) mod n) j n) = - sin (dft_angle k j n)"
proof -
  have n: "real n \<noteq> 0" using assms by simp
  have both: "cos (dft_angle ((n - k) mod n) j n) = cos (dft_angle k j n)
      \<and> sin (dft_angle ((n - k) mod n) j n) = - sin (dft_angle k j n)"
  proof (cases "k = 0")
    case True
    then show ?thesis by (simp add: dft_angle_def)
  next
    case False
    then have m: "(n - k) mod n = n - k" using assms by simp
    have "dft_angle (n - k) j n = 2 * real j * pi - dft_angle k j n"
      using assms n by (simp add: dft_angle_def of_nat_diff field_simps)
    then show ?thesis unfolding m by (simp add: cos_diff sin_diff)
  qed
  show "cos (dft_angle ((n - k) mod n) j n) = cos (dft_angle k j n)" using both by blast
  show "sin (dft_angle ((n - k) mod n) j n) = - sin (dft_angle k j n)" using both by blast
qed

lemma reference_ir_loop_reversed:
  assumes "k < length re"
  shows "reference_ir_loop re im ! k = np_ifft_real re im ! ((length re - k) mod length re)"
proof -
  let ?n = "length re"
  have "0 < ?n" using assms by (cases re) simp_all
  then have r: "(?n - k) mod ?n < ?n" by (rule mod_less_divisor)
  have l: "reference_ir_loop re im ! k = accumulate
      (\<lambda>j. re ! j * cos (dft_angle k j ?n) - im ! j * (- sin (dft_angle k j ?n))) ?n / real ?n"
    using assms by (simp add: reference_ir_loop_def Let_def del: upt_Suc)
  have "np_ifft_real re im ! ((?n - k) mod ?n) = accumulate
      (\<lambda>j. re ! j * cos (dft_angle ((?n - k) mod ?n) j ?n)
           - im ! j * sin (dft_angle ((?n - k) mod ?n) j ?n)) ?n / real ?n"
    using r by (simp add: np_ifft_real_def Let_def del: upt_Suc)
  also have "\<dots> = accumulate
      (\<lambda>j. re ! j * cos (dft_angle k j ?n) - im ! j * (- sin (dft_angle k j ?n))) ?n / real ?n"
    unfolding dft_angle_reversed [OF assms] ..
  finally show ?thesis using l by simp
qed

text \<open>
  The curve \<open>freqs = [100, 200], gains_dB = [0, 20]\<close> at 48000 Hz with \<open>ir_length = 4\<close>:
  the bins 0, 12000 and 24000 Hz get the gains 0, 20 and 20 dB without any logarithm of
  a frequency, the magnitudes 1, 10 and 10 are within the doubles, and the transforms of
  length 4 only meet quarter turns.
\<close>

lemma quarter_turns:
  "cos (dft_angle k j 4) = (if (k * j) mod 4 = 0 then 1 else if (k * j) mod 4 = 2 then - 1 else 0)"
  "sin (dft_angle k j 4) = (if (k * j) mod 4 = 1 then 1 else if (k * j) mod 4 = 3 then - 1 else 0)"
proof -
  define q r where "q = (k * j) div 4" and "r = (k * j) mod 4"
  have kj: "k * j = 4 * q + r" and r4: "r < 4" by (simp_all add: q_def r_def)
  have "real k * real j = real (4 * q + r)" using kj by (metis of_nat_mult)
  then have a: "dft_angle k j 4 = real r * (pi / 2) + 2 * real q * pi"
    by (simp add: dft_angle_def field_simps)
  have c: "cos (dft_angle k j 4) = cos (real r * (pi / 2))"
    and s: "sin (dft_angle k j 4) = sin (real r * (pi / 2))"
    unfolding a by (simp_all add: cos_add sin_add)
  have "r = 0 \<or> r = 1 \<or> r = 2 \<or> r = 3" using r4 by auto
  then have "cos (real r * (pi / 2)) = (if r = 0 then 1 else if r = 2 then - 1 else 0)
      \<and> sin (real r * (pi / 2)) = (if r = 1 then 1 else if r = 3 then - 1 else 0)"
    using cos_3over2_pi sin_3over2_pi by (auto simp: mult.commute)
  then show
    "cos (dft_angle k j 4) = (if (k * j) mod 4 = 0 then 1 else if (k * j) mod 4 = 2 then - 1 else 0)"
    "sin (dft_angle k j 4) = (if (k * j) mod 4 = 1 then 1 else if (k * j) mod 4 = 3 then - 1 else 0)"
    unfolding c s r_def by simp_all
qed

lemma accumulate_4: "accumulate f 4 = f 0 + f 1 + f 2 + f 3"
  by (simp add: accumulate_def eval_nat_numeral)

lemma upt_4: "[0 ..< 4] = [0, 1, 2, 3]"
  by (simp add: eval_nat_numeral)

lemma two_point_interp: "interp_gains lg [100, 200] [0, 20] [0, 12000, 24000] = Inr [0, 20, 20]"
  by (simp add: interp_gain_def py_index_def py_last_def)

lemma two_point_magnitudes:
  "collect (map (\<lambda>g. py_pow10 (g / 20)) [0, 20, 20]) = Inr [1, 10, 10]"
proof -
  have "\<not> float_overflows 1" "\<not> float_overflows 10"
    by (rule float_overflows_small, simp)+
  then show ?thesis by (simp add: py_pow10_def)
qed

lemma two_point_log_spectrum:
  "log_spectrum [1, 10, 10] =
     ([0, ln 10, ln 10, ln 10], [0, ln 10 / 2, 0, - (ln 10 / 2)])"
proof -
  have g2: "map (\<lambda>m. ln (max m (1 / 10 ^ 10))) [1, 10, 10 :: real] = [0, ln 10, ln 10]"
    by (simp add: max_def)
  have g3: "[0, ln 10, ln 10 :: real] @ rev (butlast (tl [0, ln 10, ln 10]))
      = [0, ln 10, ln 10, ln 10]"
    by simp
  have g4: "length [0, ln 10, ln 10, ln 10 :: real] = 4" by simp
  have g5: "map (\<lambda>k. accumulate
        (\<lambda>j. [0, ln 10, ln 10, ln 10] ! j * cos (dft_angle k j 4) / real 4) 4) [0 ..< 4]
      = [3 * ln 10 / 4, - (ln 10 / 4), - (ln 10 / 4), - (ln 10 / 4)]"
    by (simp add: upt_4 accumulate_4 quarter_turns)
  have g6: "map (\<lambda>k. accumulate
        (\<lambda>j. [0, ln 10, ln 10, ln 10] ! j * (- sin (dft_angle k j 4)) / real 4) 4) [0 ..< 4]
      = [0, 0, 0, 0]"
    by (simp add: upt_4 accumulate_4 quarter_turns)
  have g7: "(replicate 4 0)[0 := [3 * ln 10 / 4, - (ln 10 / 4), - (ln 10 / 4), - (ln 10 / 4)] ! 0]
      = [3 * ln 10 / 4, 0, 0, 0 :: real]"
    by (simp add: eval_nat_numeral)
  have "(4::nat) div 2 = 2" by simp
  moreover have "[1 ..< 2] = [1::nat]" by (simp add: numeral_2_eq_2)
  ultimately have d: "[1 ..< 4 div 2] = [1::nat]" by (simp only:)
  have z: "replicate 4 (0::real) = [0, 0, 0, 0]" by (simp add: eval_nat_numeral)
  have g8: "foldl (\<lambda>mp k. mp[k := 2 * [3 * ln 10 / 4, - (ln 10 / 4), - (ln 10 / 4), - (ln 10 / 4)] ! k])
        [3 * ln 10 / 4, 0, 0, 0 :: real] [1 ..< 4 div 2]
      = [3 * ln 10 / 4, - (ln 10 / 2), 0, 0]"
    unfolding d by simp
  have g8i: "foldl (\<lambda>mp k. mp[k := 2 * [0, 0, 0, 0 :: real] ! k]) (replicate 4 0) [1 ..< 4 div 2]
      = [0, 0, 0, 0]"
    unfolding d z by simp
  have g9: "(if (4::nat) mod 2 = 0
       then [3 * ln 10 / 4, - (ln 10 / 2), 0, 0 :: real]
              [4 div 2 := [3 * ln 10 / 4, - (ln 10 / 4), - (ln 10 / 4), - (ln 10 / 4)] ! (4 div 2)]
       else [3 * ln 10 / 4, - (ln 10 / 2), 0, 0])
      = [3 * ln 10 / 4, - (ln 10 / 2), - (ln 10 / 4), 0]"
  proof -
    have h: "(4::nat) div 2 = 2" and m: "(4::nat) mod 2 = 0" by simp_all
    show ?thesis unfolding h m by (simp add: numeral_2_eq_2)
  qed
  have g10: "map (\<lambda>k. accumulate
        (\<lambda>j. [3 * ln 10 / 4, - (ln 10 / 2), - (ln 10 / 4), 0] ! j * cos (dft_angle k j 4)
             - [0, 0, 0, 0] ! j * (- sin (dft_angle k j 4))) 4) [0 ..< 4]
      = [0, ln 10, ln 10, ln 10]"
    by (simp add: upt_4 accumulate_4 quarter_turns)
  have g11: "map (\<lambda>k. accumulate
        (\<lambda>j. [3 * ln 10 / 4, - (ln 10 / 2), - (ln 10 / 4), 0] ! j * (- sin (dft_angle k j 4))
             + [0, 0, 0, 0] ! j * cos (dft_angle k j 4)) 4) [0 ..< 4]
      = [0, ln 10 / 2, 0, - (ln 10 / 2)]"
    by (simp add: upt_4 accumulate_4 quarter_turns)
  show ?thesis
    unfolding log_spectrum_def Let_def g2 g3 g4 g5 g6 g7 g8 g8i g9 g10 g11 ..
qed

lemma two_point_exponentials:
  "collect (map (\<lambda>k.
        case math_exp ([0, ln 10, ln 10, ln 10] ! k) of
          Inl e \<Rightarrow> Inl e
        | Inr e_real \<Rightarrow> Inr (e_real * cos ([0, ln 10 / 2, 0, - (ln 10 / 2)] ! k),
                              e_real * sin ([0, ln 10 / 2, 0, - (ln 10 / 2)] ! k)))
      [0 ..< length [0, ln 10, ln 10, ln 10 :: real]])
   = Inr [(1, 0), (10 * cos (ln 10 / 2), 10 * sin (ln 10 / 2)), (10, 0),
          (10 * cos (ln 10 / 2), - (10 * sin (ln 10 / 2)))]"
proof -
  have "\<not> float_overflows 1" "\<not> float_overflows 10"
    by (rule float_overflows_small, simp)+
  then have e: "math_exp 0 = Inr 1" "math_exp (ln 10) = Inr 10"
    by (simp_all add: math_exp_def)
  have l: "length [0, ln 10, ln 10, ln 10 :: real] = 4" by simp
  show ?thesis unfolding l upt_4 by (simp add: e)
qed

lemma two_point_spectrum:
  "min_phase_spectrum [0, 20, 20] =
     Inr ([1, 10 * cos (ln 10 / 2), 10, 10 * cos (ln 10 / 2)],
          [0, 10 * sin (ln 10 / 2), 0, - (10 * sin (ln 10 / 2))])"
  unfolding min_phase_spectrum_def two_point_magnitudes sum.case two_point_log_spectrum
    prod.case two_point_exponentials
  by simp

lemma two_point_reference:
  "reference_ir_loop [1, 10 * cos (ln 10 / 2), 10, 10 * cos (ln 10 / 2)]
       [0, 10 * sin (ln 10 / 2), 0, - (10 * sin (ln 10 / 2))]
     = [(11 + 20 * cos (ln 10 / 2)) / 4, (- 9 + 20 * sin (ln 10 / 2)) / 4,
        (11 - 20 * cos (ln 10 / 2)) / 4, (- 9 - 20 * sin (ln 10 / 2)) / 4]"
proof -
  have l: "length [1, 10 * cos (ln 10 / 2), 10, 10 * cos (ln 10 / 2)] = 4" by simp
  show ?thesis
    unfolding reference_ir_loop_def Let_def l
    by (simp add: upt_4 accumulate_4 quarter_turns)
qed

lemma two_point_inverse:
  "np_ifft_real [1, 10 * cos (ln 10 / 2), 10, 10 * cos (ln 10 / 2)]
       [0, 10 * sin (ln 10 / 2), 0, - (10 * sin (ln 10 / 2))]
     = [(11 + 20 * cos (ln 10 / 2)) / 4, (- 9 - 20 * sin (ln 10 / 2)) / 4,
        (11 - 20 * cos (ln 10 / 2)) / 4, (- 9 + 20 * sin (ln 10 / 2)) / 4]"
proof -
  have l: "length [1, 10 * cos (ln 10 / 2), 10, 10 * cos (ln 10 / 2)] = 4" by simp
  show ?thesis
    unfolding np_ifft_real_def Let_def l
    by (simp add: upt_4 accumulate_4 quarter_turns)
qed

lemma sin_half_ln10: "0 < sin (ln 10 / 2 :: real)"
proof (rule sin_gt_zero)
  show "0 < ln (10::real) / 2" by simp
  have "ln (10::real) = ln 2 + (ln 2 + ln (5 / 2))"
    using ln_mult [of 2 "5::real"] ln_mult [of 2 "5 / 2 :: real"] by simp
  also have "\<dots> \<le> (2 - 1) + ((2 - 1) + (5 / 2 - 1))"
    using ln_le_minus_one [of "2::real"] ln_le_minus_one [of "5 / 2 :: real"] by simp
  finally have "ln (10::real) \<le> 7 / 2" by simp
  then show "ln (10::real) / 2 < pi" using pi_ge_two by simp
qed

text \<open>
  C2 on that curve.  The reference synthesis returns the four samples below; the inverse
  transform of the spectrum it has computed, which is what the FFT path returns, has
  samples 1 and 3 exchanged, and they differ by \<open>10 * sin(ln(10) / 2)\<close>, about 9.13.  So
  the two syntheses do not agree within 1e-6.  No logarithm of a frequency is taken on
  this curve, so the statement holds whatever \<open>math.log\<close> computes there.
\<close>

theorem reference_ir_against_inverse_transform:
  "freq_response_to_ir lg [100, 200] [0, 20] 48000 4
     = Inr [(11 + 20 * cos (ln 10 / 2)) / 4, (- 9 + 20 * sin (ln 10 / 2)) / 4,
            (11 - 20 * cos (ln 10 / 2)) / 4, (- 9 - 20 * sin (ln 10 / 2)) / 4]
   \<and> min_phase_spectrum [0, 20, 20]
     = Inr ([1, 10 * cos (ln 10 / 2), 10, 10 * cos (ln 10 / 2)],
            [0, 10 * sin (ln 10 / 2), 0, - (10 * sin (ln 10 / 2))])
   \<and> take 4 (np_ifft_real [1, 10 * cos (ln 10 / 2), 10, 10 * cos (ln 10 / 2)]
                            [0, 10 * sin (ln 10 / 2), 0, - (10 * sin (ln 10 / 2))])
     = [(11 + 20 * cos (ln 10 / 2)) / 4, (- 9 - 20 * sin (ln 10 / 2)) / 4,
        (11 - 20 * cos (ln 10 / 2)) / 4, (- 9 + 20 * sin (ln 10 / 2)) / 4]
   \<and> (- 9 + 20 * sin (ln 10 / 2)) / 4 - (- 9 - 20 * sin (ln 10 / 2)) / 4
     = 10 * sin (ln 10 / 2 :: real)
   \<and> 0 < sin (ln 10 / 2 :: real)"
proof -
  have a: "freq_response_to_ir lg [100, 200] [0, 20] 48000 4
     = Inr [(11 + 20 * cos (ln 10 / 2)) / 4, (- 9 + 20 * sin (ln 10 / 2)) / 4,
            (11 - 20 * cos (ln 10 / 2)) / 4, (- 9 - 20 * sin (ln 10 / 2)) / 4]"
    unfolding freq_response_to_ir_def two_point_bins sum.case two_point_interp min_phase_ir_def
      two_point_spectrum prod.case two_point_reference
    by simp
  have b: "take 4 (np_ifft_real [1, 10 * cos (ln 10 / 2), 10, 10 * cos (ln 10 / 2)]
                            [0, 10 * sin (ln 10 / 2), 0, - (10 * sin (ln 10 / 2))])
     = [(11 + 20 * cos (ln 10 / 2)) / 4, (- 9 - 20 * sin (ln 10 / 2)) / 4,
        (11 - 20 * cos (ln 10 / 2)) / 4, (- 9 + 20 * sin (ln 10 / 2)) / 4]"
    unfolding two_point_inverse by simp
  have c: "(- 9 + 20 * sin (ln 10 / 2)) / 4 - (- 9 - 20 * sin (ln 10 / 2)) / 4
     = 10 * sin (ln 10 / 2 :: real)"
    by (simp add: field_simps)
  show ?thesis using a b c two_point_spectrum sin_half_ln10 by blast
qed

section \<open>Byte buffers (the built-ins core/parser.py relies on)\<close>

text \<open>
  \<open>data.find(sub, start)\<close> for \<open>start \<ge> 0\<close>: the lowest index \<open>i \<ge> start\<close> with
  \<open>data[i : i + len(sub)] == sub\<close>, or \<open>None\<close> for Python's \<open>-1\<close>.  \<open>find_at\<close> walks the
  suffix of the buffer that starts at index \<open>i\<close>.
\<close>

fun find_at :: "bytes \<Rightarrow> bytes \<Rightarrow> nat \<Rightarrow> nat option" where
  "find_at sub [] i = (if sub = [] then Some i else None)"
| "find_at sub (x # xs) i =
     (if take (length sub) (x # xs) = sub then Some i else find_at sub xs (i + 1))"

definition bytes_find :: "bytes \<Rightarrow> bytes \<Rightarrow> nat \<Rightarrow> nat option" where
  "bytes_find data sub start =
     (if start > length data then None else find_at sub (drop start data) start)"

text \<open>\<open>data.find(sub, start, end)\<close> searches the slice that stops at \<open>end\<close>.\<close>

definition bytes_find_in :: "bytes \<Rightarrow> bytes \<Rightarrow> nat \<Rightarrow> nat \<Rightarrow> nat option" where
  "bytes_find_in data sub start end = bytes_find (take end data) sub start"

text \<open>The slice \<open>data[a:b]\<close> for \<open>0 \<le> a\<close>; Python clips it to the buffer.\<close>

definition py_slice :: "'a list \<Rightarrow> nat \<Rightarrow> nat \<Rightarrow> 'a list" where
  "py_slice xs a b = take (b - a) (drop a xs)"

text \<open>
  \<open>bytes.decode("ascii", errors="replace")\<close>: a byte of 128 or more becomes U+FFFD.
  \<open>str.isprintable\<close> on such a string: the ASCII code points 32 to 126 are printable, the
  other ASCII code points are not, and U+FFFD is (no other code point arises here).
\<close>

definition decode_ascii :: "bytes \<Rightarrow> pystr" where
  "decode_ascii bs = map (\<lambda>c. if of_char c < (128::nat) then of_char c else 65533) bs"

definition isprintable :: "pystr \<Rightarrow> bool" where
  "isprintable s = list_all (\<lambda>cp. if cp < 128 then 32 \<le> cp \<and> cp \<le> 126 else cp = 65533) s"

text \<open>
  \<open>struct.unpack_from("<I", data, offset)\<close>: four bytes, little-endian; \<open>struct.error\<close>
  when the buffer ends before \<open>offset + 4\<close>.
\<close>

definition le_bits :: "bytes \<Rightarrow> nat \<Rightarrow> nat" where
  "le_bits data offset =
     of_char (data ! offset) + 256 * of_char (data ! (offset + 1))
     + 65536 * of_char (data ! (offset + 2)) + 16777216 * of_char (data ! (offset + 3))"

definition unpack_uint32 :: "bytes \<Rightarrow> nat \<Rightarrow> error + nat" where
  "unpack_uint32 data offset =
     (if offset + 4 > length data then Inl StructError else Inr (le_bits data offset))"

text \<open>
  Python floats as the parser meets them: finite values, the two infinities and NaN
  (the sign of a zero is not kept).  \<open>struct.unpack_from("<f", ...)\<close> reads an IEEE 754
  binary32 value: 1 sign bit, 8 exponent bits, 23 fraction bits; every binary32 value is
  a Python float, so the conversion is exact.
\<close>

datatype pyfloat = Finite real | PosInf | NegInf | NaN

definition float32_of_bits :: "nat \<Rightarrow> pyfloat" where
  "float32_of_bits bits =
     (let sign = bits div 2 ^ 31;
          e = (bits div 2 ^ 23) mod 256;
          m = bits mod 2 ^ 23;
          mag = (if e = 0 then real m / 2 ^ 149
                 else if e < 150 then real (2 ^ 23 + m) / 2 ^ (150 - e)
                 else real (2 ^ 23 + m) * 2 ^ (e - 150))
      in if e = 255 then (if m = 0 then (if sign = 0 then PosInf else NegInf) else NaN)
         else Finite (if sign = 0 then mag else - mag))"

definition unpack_float32 :: "bytes \<Rightarrow> nat \<Rightarrow> error + pyfloat" where
  "unpack_float32 data offset =
     (if offset + 4 > length data then Inl StructError
      else Inr (float32_of_bits (le_bits data offset)))"

text \<open>The comparisons and \<open>abs\<close> of Python floats; every comparison with NaN is false.\<close>

fun pyfloat_less :: "pyfloat \<Rightarrow> pyfloat \<Rightarrow> bool" where
  "pyfloat_less (Finite a) (Finite b) = (a < b)"
| "pyfloat_less (Finite a) PosInf = True"
| "pyfloat_less NegInf (Finite b) = True"
| "pyfloat_less NegInf PosInf = True"
| "pyfloat_less _ _ = False"

fun pyfloat_is_zero :: "pyfloat \<Rightarrow> bool" where
  "pyfloat_is_zero (Finite a) = (a = 0)"
| "pyfloat_is_zero _ = False"

fun pyfloat_abs :: "pyfloat \<Rightarrow> pyfloat" where
  "pyfloat_abs (Finite a) = Finite \<bar>a\<bar>"
| "pyfloat_abs PosInf = PosInf"
| "pyfloat_abs NegInf = PosInf"
| "pyfloat_abs NaN = NaN"

text \<open>\<open>min(iterable, default=d)\<close> over natural numbers.\<close>

fun py_min_default :: "nat list \<Rightarrow> nat \<Rightarrow> nat" where
  "py_min_default [] d = d"
| "py_min_default (x # xs) d = fold min xs x"

subsection \<open>Facts about \<open>find\<close>\<close>

lemma find_at_Some:
  "find_at sub xs i = Some j \<Longrightarrow>
     i \<le> j \<and> (j - i) + length sub \<le> length xs \<and> take (length sub) (drop (j - i) xs) = sub"
proof (induction xs arbitrary: i)
  case Nil
  then show ?case by (simp split: if_splits)
next
  case (Cons x xs)
  show ?case
  proof (cases "take (length sub) (x # xs) = sub")
    case True
    then have "j = i" using Cons.prems by simp
    moreover have "length sub \<le> length (x # xs)"
      using arg_cong [OF True, of length] by simp
    ultimately show ?thesis using True by simp
  next
    case False
    then have "find_at sub xs (Suc i) = Some j" using Cons.prems by simp
    from Cons.IH [OF this] have "Suc i \<le> j" "(j - Suc i) + length sub \<le> length xs"
      "take (length sub) (drop (j - Suc i) xs) = sub" by blast+
    moreover from \<open>Suc i \<le> j\<close> have "j - i = Suc (j - Suc i)" by simp
    ultimately show ?thesis by simp
  qed
qed

lemma find_at_None:
  "find_at sub xs i = None \<Longrightarrow> k \<le> length xs \<Longrightarrow> take (length sub) (drop k xs) \<noteq> sub"
proof (induction xs arbitrary: i k)
  case Nil
  then show ?case by (auto split: if_splits)
next
  case (Cons x xs)
  then have here: "take (length sub) (x # xs) \<noteq> sub" and rest: "find_at sub xs (Suc i) = None"
    by (simp_all split: if_splits)
  show ?case
  proof (cases k)
    case 0
    then show ?thesis using here by simp
  next
    case (Suc k')
    then show ?thesis using Cons.IH [OF rest, of k'] Cons.prems(2) by simp
  qed
qed

lemma bytes_find_Some:
  assumes "bytes_find data sub start = Some j"
  shows "start \<le> j" and "j + length sub \<le> length data"
    and "take (length sub) (drop j data) = sub"
proof -
  have le: "start \<le> length data" and f: "find_at sub (drop start data) start = Some j"
    using assms by (simp_all add: bytes_find_def split: if_splits)
  from find_at_Some [OF f] have a: "start \<le> j"
    and b: "(j - start) + length sub \<le> length data - start"
    and c: "take (length sub) (drop (j - start) (drop start data)) = sub" by auto
  show "start \<le> j" by (rule a)
  show "j + length sub \<le> length data" using a b le by simp
  show "take (length sub) (drop j data) = sub" using a c by simp
qed

lemma bytes_find_None:
  assumes "bytes_find data sub start = None" and "start \<le> k"
  shows "take (length sub) (drop k data) \<noteq> sub \<or> length data < k"
proof (cases "k \<le> length data")
  case False
  then show ?thesis by simp
next
  case True
  then have le: "start \<le> length data" using assms(2) by simp
  then have f: "find_at sub (drop start data) start = None"
    using assms(1) by (simp add: bytes_find_def)
  have "take (length sub) (drop (k - start) (drop start data)) \<noteq> sub"
    using find_at_None [OF f, of "k - start"] True assms(2) by simp
  then show ?thesis using assms(2) by simp
qed

section \<open>Metadata decoding (core/parser.py, \_parse\_metadata)\<close>

text \<open>
  The metadata dictionary, and one pass through the body of \<open>while pos < end\<close>: the
  loop either goes on from a new cursor, having recorded a key/value pair or not
  (the three resynchronising \<open>continue\<close>s record nothing), or leaves by \<open>break\<close>.  Positions are
  natural numbers, as the offsets that \<open>parse_swproj\<close> passes are.
\<close>

type_synonym metadata = "pystr \<rightharpoonup> pystr"

datatype scan_step = Continue nat "(pystr \<times> pystr) option" | Break

definition metadata_step :: "bytes \<Rightarrow> nat \<Rightarrow> scan_step" where
  "metadata_step data pos =
     (case bytes_find_in data [CHR 0x00] pos (pos + 100) of
        None \<Rightarrow> Continue (pos + 1) None
      | Some null_pos \<Rightarrow>
          if null_pos - pos > 50 then Continue (pos + 1) None
          else
            (let key = decode_ascii (py_slice data pos null_pos)
             in if \<not> isprintable key \<or> length key < 2 then Continue (pos + 1) None
                else
                  (let val_len_pos = null_pos + 1
                   in if val_len_pos + 4 > length data then Break
                      else
                        (let val_len = le_bits data val_len_pos
                         in if val_len > 200 then Continue (pos + 1) None
                            else
                              (let val = decode_ascii
                                     (py_slice data (val_len_pos + 4) (val_len_pos + 4 + val_len))
                               in Continue (val_len_pos + 4 + val_len) (Some (key, val)))))))"

definition record_pair :: "metadata \<Rightarrow> (pystr \<times> pystr) option \<Rightarrow> metadata" where
  "record_pair meta upd = (case upd of None \<Rightarrow> meta | Some (k, v) \<Rightarrow> meta(k \<mapsto> v))"

lemma bytes_find_in_Some:
  assumes "bytes_find_in data sub start end = Some j"
  shows "start \<le> j" and "j + length sub \<le> length data" and "j + length sub \<le> end"
    and "take (length sub) (drop j data) = sub"
proof -
  note f = assms [unfolded bytes_find_in_def]
  show "start \<le> j" by (rule bytes_find_Some(1) [OF f])
  have l: "j + length sub \<le> length (take end data)" by (rule bytes_find_Some(2) [OF f])
  then show "j + length sub \<le> length data" and e: "j + length sub \<le> end" by simp_all
  have "take (length sub) (drop j (take end data)) = sub" by (rule bytes_find_Some(3) [OF f])
  moreover have "take (length sub) (drop j (take end data)) = take (length sub) (drop j data)"
    using e by (simp add: drop_take min_absorb1)
  ultimately show "take (length sub) (drop j data) = sub" by simp
qed

lemma metadata_step_advances:
  assumes "metadata_step data pos = Continue p upd"
  shows "pos < p"
proof (cases "bytes_find_in data [CHR 0x00] pos (pos + 100)")
  case None
  then show ?thesis using assms by (simp add: metadata_step_def)
next
  case (Some null_pos)
  have "pos \<le> null_pos" using bytes_find_in_Some(1) [OF Some] .
  then show ?thesis
    using assms Some by (auto simp: metadata_step_def Let_def split: if_splits)
qed

text \<open>
  The loop.  Its termination is proved from \<open>metadata_step_advances\<close>: the distance to
  \<open>end\<close> decreases with every iteration.
\<close>

function parse_metadata_loop :: "bytes \<Rightarrow> nat \<Rightarrow> nat \<Rightarrow> metadata \<Rightarrow> metadata" where
  "parse_metadata_loop data end pos meta =
     (if pos < end then
        (case metadata_step data pos of
           Break \<Rightarrow> meta
         | Continue p upd \<Rightarrow> parse_metadata_loop data end p (record_pair meta upd))
      else meta)"
  by pat_completeness auto
termination
proof (relation "measure (\<lambda>(data, end, pos, meta). end - pos)")
  show "wf (measure (\<lambda>(data, end, pos, meta). end - pos))" by simp
next
  fix data :: bytes and "end" pos :: nat and meta :: metadata and p upd
  assume "pos < end" and "metadata_step data pos = Continue p upd"
  then show "((data, end, p, record_pair meta upd), (data, end, pos, meta))
      \<in> measure (\<lambda>(data, end, pos, meta). end - pos)"
    using metadata_step_advances [of data pos p upd] by simp
qed

declare parse_metadata_loop.simps [simp del]

text \<open>
  The same loop with a bound on the number of iterations: \<open>None\<close> when the bound is
  reached before the loop is left.
\<close>

fun parse_metadata_fuel :: "nat \<Rightarrow> bytes \<Rightarrow> nat \<Rightarrow> nat \<Rightarrow> metadata \<Rightarrow> metadata option" where
  "parse_metadata_fuel fuel data end pos meta =
     (if pos < end then
        (case fuel of
           0 \<Rightarrow> None
         | Suc fuel' \<Rightarrow>
             (case metadata_step data pos of
                Break \<Rightarrow> Some meta
              | Continue p upd \<Rightarrow> parse_metadata_fuel fuel' data end p (record_pair meta upd)))
      else Some meta)"

declare parse_metadata_fuel.simps [simp del]

text \<open>
  \<open>_parse_metadata(data, start_pos, boundaries)\<close>: the scan stops at the first boundary
  after \<open>start_pos\<close>, or at the end of the buffer when there is none.
\<close>

definition parse_metadata :: "bytes \<Rightarrow> nat \<Rightarrow> nat list \<Rightarrow> metadata" where
  "parse_metadata data start_pos boundaries =
     parse_metadata_loop data
       (py_min_default (filter (\<lambda>b. b > start_pos) boundaries) (length data)) start_pos Map.empty"

lemma parse_metadata_fuel_enough:
  "end - pos \<le> fuel \<Longrightarrow>
   parse_metadata_fuel fuel data end pos meta = Some (parse_metadata_loop data end pos meta)"
proof (induction fuel arbitrary: pos meta)
  case 0
  then show ?case
    by (simp add: parse_metadata_fuel.simps [of 0] parse_metadata_loop.simps [of data "end" pos])
next
  case (Suc fuel)
  show ?case
  proof (cases "pos < end")
    case False
    then show ?thesis
      by (simp add: parse_metadata_fuel.simps [of "Suc fuel"] parse_metadata_loop.simps [of data "end" pos])
  next
    case True
    show ?thesis
    proof (cases "metadata_step data pos")
      case Break
      then show ?thesis using True
        by (simp add: parse_metadata_fuel.simps [of "Suc fuel"] parse_metadata_loop.simps [of data "end" pos])
    next
      case (Continue p upd)
      have "pos < p" using metadata_step_advances [OF Continue] .
      then have "end - p \<le> fuel" using Suc.prems True by simp
      from Suc.IH [OF this, of "record_pair meta upd"] show ?thesis using True Continue
        by (simp add: parse_metadata_fuel.simps [of "Suc fuel"] parse_metadata_loop.simps [of data "end" pos])
    qed
  qed
qed

text \<open>
  C10.  The scan loop of the metadata decoding terminates on every buffer, start
  position and boundary list.  Every iteration that goes on moves the cursor strictly
  forward: a resynchronisation by exactly one byte, an accepted record to the position
  after its NUL, its 4-byte length and its value.  Hence \<open>end - pos\<close> iterations are
  enough for the loop to return, whatever \<open>end\<close> is, and that is the result of
  \<open>_parse_metadata\<close>.
\<close>

theorem parse_metadata_terminates:
  "(metadata_step data pos = Continue p upd \<longrightarrow>
      pos < p
      \<and> (upd = None \<longrightarrow> p = pos + 1)
      \<and> (upd \<noteq> None \<longrightarrow>
           (\<exists>null_pos. bytes_find_in data [CHR 0x00] pos (pos + 100) = Some null_pos
              \<and> pos \<le> null_pos
              \<and> p = null_pos + 1 + 4 + le_bits data (null_pos + 1))))
   \<and> parse_metadata_fuel (end - pos) data end pos meta
        = Some (parse_metadata_loop data end pos meta)
   \<and> parse_metadata_fuel
        (py_min_default (filter (\<lambda>b. b > start_pos) boundaries) (length data) - start_pos) data
        (py_min_default (filter (\<lambda>b. b > start_pos) boundaries) (length data)) start_pos Map.empty
        = Some (parse_metadata data start_pos boundaries)"
proof (intro conjI impI)
  assume c: "metadata_step data pos = Continue p upd"
  show "pos < p" by (rule metadata_step_advances [OF c])
  show "p = pos + 1" if "upd = None"
    using c that by (auto simp: metadata_step_def Let_def split: option.splits if_splits)
  show "\<exists>null_pos. bytes_find_in data [CHR 0x00] pos (pos + 100) = Some null_pos
      \<and> pos \<le> null_pos \<and> p = null_pos + 1 + 4 + le_bits data (null_pos + 1)" if "upd \<noteq> None"
  proof (cases "bytes_find_in data [CHR 0x00] pos (pos + 100)")
    case None
    then show ?thesis using c that by (simp add: metadata_step_def)
  next
    case (Some null_pos)
    have "pos \<le> null_pos" using bytes_find_in_Some(1) [OF Some] .
    moreover have "p = null_pos + 1 + 4 + le_bits data (null_pos + 1)"
      using c that Some by (auto simp: metadata_step_def Let_def split: if_splits)
    ultimately show ?thesis using Some by simp
  qed
next
  show "parse_metadata_fuel (end - pos) data end pos meta
      = Some (parse_metadata_loop data end pos meta)"
    by (rule parse_metadata_fuel_enough) simp
next
  let ?e = "py_min_default (filter (\<lambda>b. b > start_pos) boundaries) (length data)"
  show "parse_metadata_fuel (?e - start_pos) data ?e start_pos Map.empty
      = Some (parse_metadata data start_pos boundaries)"
    unfolding parse_metadata_def by (rule parse_metadata_fuel_enough) simp
qed

definition sample_record :: bytes where
  "sample_record = ''ab'' @ [CHR 0x00, CHR 0x01, CHR 0x00, CHR 0x00, CHR 0x00] @ ''x''"

theorem parse_metadata_terminates_witness:
  "metadata_step sample_record 0 = Continue 8 (Some (str ''ab'', str ''x''))
   \<and> (0::nat) < 8
   \<and> bytes_find_in sample_record [CHR 0x00] 0 100 = Some 2
   \<and> 8 = 2 + 1 + 4 + le_bits sample_record 3
   \<and> parse_metadata_fuel 8 sample_record 8 0 Map.empty
       = Some (parse_metadata_loop sample_record 8 0 Map.empty)
   \<and> parse_metadata_loop sample_record 8 0 Map.empty = [str ''ab'' \<mapsto> str ''x'']"
proof -
  have s: "metadata_step sample_record 0 = Continue 8 (Some (str ''ab'', str ''x''))"
    by (simp add: sample_record_def metadata_step_def bytes_find_in_def bytes_find_def
        py_slice_def decode_ascii_def isprintable_def le_bits_def str_def)
  have f: "bytes_find_in sample_record [CHR 0x00] 0 100 = Some 2"
    by (simp add: sample_record_def bytes_find_in_def bytes_find_def)
  have l: "le_bits sample_record 3 = 1" by (simp add: sample_record_def le_bits_def)
  have r: "parse_metadata_loop sample_record 8 0 Map.empty = [str ''ab'' \<mapsto> str ''x'']"
    by (simp add: parse_metadata_loop.simps [of _ _ 0] parse_metadata_loop.simps [of _ _ 8]
        s record_pair_def)
  show ?thesis
    using parse_metadata_terminates
      [of sample_record 0 8 "Some (str ''ab'', str ''x'')" 8 Map.empty 0 "[]"] s f l r
    by simp
qed

section \<open>Data blocks (core/parser.py, \_parse\_blocks)\<close>

definition POINTS_PER_CURVE :: nat where
  "POINTS_PER_CURVE = 355"

definition DATA_HEADER :: bytes where
  "DATA_HEADER = [CHR 0x63, CHR 0x01, CHR 0x00, CHR 0x00, CHR 0x07, CHR 0x00, CHR 0x00, CHR 0x00]"

text \<open>
  \<open>round(q / d)\<close> for natural numbers \<open>q\<close> and \<open>d > 0\<close>: the nearest integer to the
  quotient, a tie going to the even neighbour.  The quotient is taken as exact, which the
  float division is for every buffer below \<open>2^40\<close> bytes as far as the rounding goes.
\<close>

definition py_round_div :: "nat \<Rightarrow> nat \<Rightarrow> nat" where
  "py_round_div q d =
     (let r = (2 * q + d) div (2 * d)
      in if (2 * q + d) mod (2 * d) = 0 \<and> odd r then r - 1 else r)"

record block =
  blk_fpp :: nat
  blk_freqs :: "pyfloat list"
  blk_values :: "pyfloat list"

text \<open>
  The loop \<open>for i in range(POINTS_PER_CURVE)\<close>, over the list of its indices: two
  floats per point, the first \<open>struct.error\<close> ending it.
\<close>

fun read_points :: "bytes \<Rightarrow> nat \<Rightarrow> nat \<Rightarrow> nat list \<Rightarrow> error + (pyfloat \<times> pyfloat) list" where
  "read_points data float_start fpp [] = Inr []"
| "read_points data float_start fpp (i # is) =
     (let offset = float_start + i * fpp * 4
      in case unpack_float32 data offset of Inl e \<Rightarrow> Inl e | Inr freq \<Rightarrow>
         case unpack_float32 data (offset + 4) of Inl e \<Rightarrow> Inl e | Inr val \<Rightarrow>
         case read_points data float_start fpp is of Inl e \<Rightarrow> Inl e | Inr pts \<Rightarrow>
           Inr ((freq, val) # pts))"

text \<open>
  The body of \<open>for header in data_headers\<close>.  A header found by \<open>find\<close> has its 8 bytes
  inside the buffer, so \<open>block_bytes\<close> is not negative.
\<close>

definition parse_block :: "bytes \<Rightarrow> nat list \<Rightarrow> nat \<Rightarrow> error + block" where
  "parse_block data boundaries header =
     (let float_start = header + 8;
          next_boundary = py_min_default
             (filter (\<lambda>b. b > float_start) (boundaries @ [length data])) (length data);
          block_bytes = next_boundary - float_start;
          fpp = py_round_div (block_bytes div 4) POINTS_PER_CURVE
      in case read_points data float_start fpp [0 ..< POINTS_PER_CURVE] of
           Inl e \<Rightarrow> Inl e
         | Inr pts \<Rightarrow> Inr \<lparr>blk_fpp = fpp, blk_freqs = map fst pts, blk_values = map snd pts\<rparr>)"

fun parse_blocks :: "bytes \<Rightarrow> nat list \<Rightarrow> nat list \<Rightarrow> error + block list" where
  "parse_blocks data [] boundaries = Inr []"
| "parse_blocks data (header # headers) boundaries =
     (case parse_block data boundaries header of Inl e \<Rightarrow> Inl e | Inr b \<Rightarrow>
      case parse_blocks data headers boundaries of Inl e \<Rightarrow> Inl e | Inr bs \<Rightarrow> Inr (b # bs))"

section \<open>The parser (core/parser.py, parse\_swproj)\<close>

text \<open>
  The loop \<open>while True: idx = data.find(DATA_HEADER, pos) ...\<close> that collects every
  occurrence of the marker, and \<open>re.finditer(b"ChannelDelayMs", data)\<close>, which resumes
  after the end of each match.
\<close>

function find_data_headers :: "bytes \<Rightarrow> nat \<Rightarrow> nat list" where
  "find_data_headers data pos =
     (case bytes_find data DATA_HEADER pos of
        None \<Rightarrow> []
      | Some idx \<Rightarrow> idx # find_data_headers data (idx + 1))"
  by pat_completeness auto
termination
proof (relation "measure (\<lambda>(data, pos). length data - pos)")
  show "wf (measure (\<lambda>(data, pos). length data - pos))" by simp
next
  fix data :: bytes and pos idx :: nat
  assume f: "bytes_find data DATA_HEADER pos = Some idx"
  have "pos \<le> idx" "idx + length DATA_HEADER \<le> length data"
    using bytes_find_Some [OF f] by simp_all
  then show "((data, idx + 1), (data, pos)) \<in> measure (\<lambda>(data, pos). length data - pos)"
    by (simp add: DATA_HEADER_def)
qed

declare find_data_headers.simps [simp del]

definition CHANNEL_DELAY_MS :: bytes where
  "CHANNEL_DELAY_MS = ''ChannelDelayMs''"

function find_delay_positions :: "bytes \<Rightarrow> nat \<Rightarrow> nat list" where
  "find_delay_positions data pos =
     (case bytes_find data CHANNEL_DELAY_MS pos of
        None \<Rightarrow> []
      | Some idx \<Rightarrow> idx # find_delay_positions data (idx + length CHANNEL_DELAY_MS))"
  by pat_completeness auto
termination
proof (relation "measure (\<lambda>(data, pos). length data - pos)")
  show "wf (measure (\<lambda>(data, pos). length data - pos))" by simp
next
  fix data :: bytes and pos idx :: nat
  assume f: "bytes_find data CHANNEL_DELAY_MS pos = Some idx"
  have "pos \<le> idx" "idx + length CHANNEL_DELAY_MS \<le> length data"
    using bytes_find_Some [OF f] by simp_all
  then show "((data, idx + length CHANNEL_DELAY_MS), (data, pos))
      \<in> measure (\<lambda>(data, pos). length data - pos)"
    by (simp add: CHANNEL_DELAY_MS_def)
qed

declare find_delay_positions.simps [simp del]

text \<open>The decimal digits of \<open>i\<close>, for the f-string \<open>f"Channel_{i}"\<close>.\<close>

fun decimal :: "nat \<Rightarrow> pystr" where
  "decimal n = (if n < 10 then [48 + n] else decimal (n div 10) @ [48 + n mod 10])"

declare decimal.simps [simp del]

text \<open>
  The dictionary \<open>channels\<close>, in insertion order, and one pass through the body of
  \<open>for i, meta_start in enumerate(delay_positions)\<close>.  The built-ins \<open>int\<close> and \<open>float\<close>
  applied to a string are parameters of the model: \<open>to_int\<close> and \<open>to_float\<close> return \<open>None\<close>
  where the built-in raises \<open>ValueError\<close>.
\<close>

type_synonym channel_dict = "((pystr \<times> int) \<times> pyfloat ChannelData) list"

definition assemble_channel ::
  "(pystr \<Rightarrow> int option) \<Rightarrow> (pystr \<Rightarrow> pyfloat option) \<Rightarrow> bytes \<Rightarrow> nat list \<Rightarrow>
   channel_dict \<Rightarrow> nat \<times> nat \<Rightarrow> error + channel_dict" where
  "assemble_channel to_int to_float data boundaries chans im =
     (case im of (i, meta_start) \<Rightarrow>
      (let meta = parse_metadata data meta_start boundaries;
           ch_name = (case meta (str ''ChannelName'') of
                        Some v \<Rightarrow> v | None \<Rightarrow> str ''Channel_'' @ decimal i)
       in case (case meta (str ''ChannelIndex'') of
                  Some v \<Rightarrow> to_int v | None \<Rightarrow> Some (int i)) of
            None \<Rightarrow> Inl IntValueError
          | Some ch_idx \<Rightarrow>
              (let key = (ch_name, ch_idx);
                   chans1 =
                     (if key \<in> set (map fst chans) then chans
                      else chans @
                        [(key, \<lparr>name = ch_name, index = ch_idx,
                                 group = (case meta (str ''ChannelGroup'') of
                                            Some v \<Rightarrow> v | None \<Rightarrow> []),
                                 delay_ms = Finite 0, frequencies = [],
                                 correction_dB = [], measurement_dB = []\<rparr>)]);
                   delay_str = (case meta (str ''ChannelDelayMs'') of
                                  Some v \<Rightarrow> v | None \<Rightarrow> str ''0'')
               in case (if delay_str = str ''-0'' \<or> delay_str = str ''0'' then Some (Finite 0)
                        else to_float delay_str) of
                    None \<Rightarrow> Inl FloatValueError
                  | Some delay_val \<Rightarrow>
                      Inr (if \<not> pyfloat_is_zero delay_val
                           then map (\<lambda>(k, ch). if k = key
                                       then (k, ch\<lparr>delay_ms := pyfloat_abs delay_val\<rparr>)
                                       else (k, ch)) chans1
                           else chans1))))"

fun assemble_channels ::
  "(pystr \<Rightarrow> int option) \<Rightarrow> (pystr \<Rightarrow> pyfloat option) \<Rightarrow> bytes \<Rightarrow> nat list \<Rightarrow>
   channel_dict \<Rightarrow> (nat \<times> nat) list \<Rightarrow> error + channel_dict" where
  "assemble_channels to_int to_float data boundaries chans [] = Inr chans"
| "assemble_channels to_int to_float data boundaries chans (im # ims) =
     (case assemble_channel to_int to_float data boundaries chans im of
        Inl e \<Rightarrow> Inl e
      | Inr chans' \<Rightarrow> assemble_channels to_int to_float data boundaries chans' ims)"

text \<open>
  The body of \<open>for i, ch in enumerate(channel_list)\<close>: block \<open>2i\<close> gives the frequencies
  and the correction, block \<open>2i + 1\<close> the measurement, when they exist.
\<close>

definition assign_blocks :: "block list \<Rightarrow> nat \<times> pyfloat ChannelData \<Rightarrow> pyfloat ChannelData" where
  "assign_blocks blocks ich =
     (case ich of (i, ch) \<Rightarrow>
      (let corr_idx = i * 2;
           meas_idx = i * 2 + 1;
           ch1 = (if corr_idx < length blocks
                  then ch\<lparr>frequencies := blk_freqs (blocks ! corr_idx),
                          correction_dB := blk_values (blocks ! corr_idx)\<rparr>
                  else ch)
       in if meas_idx < length blocks
          then ch1\<lparr>measurement_dB := blk_values (blocks ! meas_idx)\<rparr>
          else ch1))"

definition PROJECT_HEADER_END :: bytes where
  "PROJECT_HEADER_END = ''</ProjectHeader>''"

text \<open>
  \<open>parse_swproj\<close> as a function of the bytes read from the file; \<open>path\<close> only names the
  profile.  \<open>sorted(..., key=lambda c: c.index)\<close> is a stable sort, as \<open>sort_key\<close> is.
\<close>

definition parse_swproj ::
  "(pystr \<Rightarrow> int option) \<Rightarrow> (pystr \<Rightarrow> pyfloat option) \<Rightarrow> pystr \<Rightarrow> bytes \<Rightarrow> bool \<Rightarrow>
   error + pyfloat Profile" where
  "parse_swproj to_int to_float path data require_stereo =
     (case bytes_find data PROJECT_HEADER_END 0 of
        None \<Rightarrow> Inl MissingHeader
      | Some xml_end \<Rightarrow>
          (let data_headers = find_data_headers data 0
           in if data_headers = [] then Inl NoDataBlocks
              else
                (let delay_positions = find_delay_positions data 0;
                     boundaries = sort (data_headers @ delay_positions)
                 in case parse_blocks data data_headers boundaries of
                      Inl e \<Rightarrow> Inl e
                    | Inr blocks \<Rightarrow>
                        (case assemble_channels to_int to_float data boundaries []
                                (enumerate 0 delay_positions) of
                           Inl e \<Rightarrow> Inl e
                         | Inr chans \<Rightarrow>
                             (let channel_list = map (assign_blocks blocks)
                                    (enumerate 0 (sort_key index (map snd chans)))
                              in if require_stereo \<and> length channel_list \<noteq> 2
                                 then Inl (ChannelCountMismatch (length channel_list))
                                 else Inr \<lparr>source_path = path, channels = channel_list\<rparr>)))))"

text \<open>
  The little-endian encoding of an unsigned 32-bit integer, in which the specification
  describes the data-block marker: the point count 355 followed by the type tag 7.
\<close>

definition le_uint32 :: "nat \<Rightarrow> bytes" where
  "le_uint32 n = [char_of (n mod 256), char_of (n div 256 mod 256),
                  char_of (n div 65536 mod 256), char_of (n div 16777216 mod 256)]"

subsection \<open>Missing markers\<close>

lemma bytes_find_None_iff: "bytes_find data sub 0 = None \<longleftrightarrow> \<not> sublist sub data"
proof
  assume n: "bytes_find data sub 0 = None"
  show "\<not> sublist sub data"
  proof
    assume "sublist sub data"
    then obtain ps ss where d: "data = ps @ sub @ ss" by (auto simp: sublist_def)
    have "take (length sub) (drop (length ps) data) = sub" using d by simp
    moreover have "length ps \<le> length data" using d by simp
    ultimately show False using bytes_find_None [OF n, of "length ps"] by simp
  qed
next
  assume ns: "\<not> sublist sub data"
  show "bytes_find data sub 0 = None"
  proof (cases "bytes_find data sub 0")
    case None
    then show ?thesis .
  next
    case (Some j)
    have "take (length sub) (drop j data) = sub" by (rule bytes_find_Some(3) [OF Some])
    then have "data = take j data @ sub @ drop (length sub) (drop j data)"
      by (metis append_take_drop_id)
    then have "sublist sub data" unfolding sublist_def by blast
    then show ?thesis using ns by simp
  qed
qed

lemma find_data_headers_Nil:
  "find_data_headers data 0 = [] \<longleftrightarrow> \<not> sublist DATA_HEADER data"
  by (simp add: find_data_headers.simps [of data 0] bytes_find_None_iff [symmetric]
      split: option.splits)

lemma DATA_HEADER_le: "DATA_HEADER = le_uint32 355 @ le_uint32 7"
  by (simp add: DATA_HEADER_def le_uint32_def char_of_def bit_iff_odd)

text \<open>
  C8.  A buffer that does not contain the literal \<open></ProjectHeader>\<close> fails with
  \<open>MissingHeader\<close>; a buffer that contains it but contains no occurrence of the 8-byte
  marker (little-endian 355, then little-endian 7) fails with \<open>NoDataBlocks\<close>.  Containment
  is \<open>sublist\<close>, the contiguous-sublist relation of the library.
\<close>

theorem parse_swproj_missing_markers:
  "(\<not> sublist ''</ProjectHeader>'' data \<longrightarrow>
      parse_swproj to_int to_float path data require_stereo = Inl MissingHeader)
   \<and> (sublist ''</ProjectHeader>'' data \<and> \<not> sublist (le_uint32 355 @ le_uint32 7) data \<longrightarrow>
      parse_swproj to_int to_float path data require_stereo = Inl NoDataBlocks)"
proof (intro conjI impI)
  assume "\<not> sublist ''</ProjectHeader>'' data"
  then have "bytes_find data PROJECT_HEADER_END 0 = None"
    by (simp add: bytes_find_None_iff PROJECT_HEADER_END_def)
  then show "parse_swproj to_int to_float path data require_stereo = Inl MissingHeader"
    by (simp add: parse_swproj_def)
next
  assume a: "sublist ''</ProjectHeader>'' data \<and> \<not> sublist (le_uint32 355 @ le_uint32 7) data"
  then have "bytes_find data PROJECT_HEADER_END 0 \<noteq> None"
    by (simp add: bytes_find_None_iff PROJECT_HEADER_END_def)
  then obtain xml_end where x: "bytes_find data PROJECT_HEADER_END 0 = Some xml_end" by auto
  have "find_data_headers data 0 = []"
    using a by (simp add: find_data_headers_Nil DATA_HEADER_le)
  then show "parse_swproj to_int to_float path data require_stereo = Inl NoDataBlocks"
    by (simp add: parse_swproj_def x)
qed

theorem parse_swproj_missing_markers_witness:
  "\<not> sublist ''</ProjectHeader>'' ''not-a-real-swproj''
   \<and> parse_swproj (\<lambda>s. None) (\<lambda>s. None) [] ''not-a-real-swproj'' True = Inl MissingHeader
   \<and> sublist ''</ProjectHeader>'' ''<ProjectHeader></ProjectHeader>''
   \<and> \<not> sublist (le_uint32 355 @ le_uint32 7) ''<ProjectHeader></ProjectHeader>''
   \<and> parse_swproj (\<lambda>s. None) (\<lambda>s. None) [] ''<ProjectHeader></ProjectHeader>'' True = Inl NoDataBlocks"
proof -
  have a: "\<not> sublist ''</ProjectHeader>'' ''not-a-real-swproj''"
    by (simp add: sublist_code prefix_code)
  have b: "sublist ''</ProjectHeader>'' ''<ProjectHeader></ProjectHeader>''"
    by (simp add: sublist_code prefix_code)
  have c: "\<not> sublist (le_uint32 355 @ le_uint32 7) ''<ProjectHeader></ProjectHeader>''"
    unfolding DATA_HEADER_le [symmetric] by (simp add: DATA_HEADER_def sublist_code prefix_code)
  show ?thesis
    using a b c
      parse_swproj_missing_markers [of "''not-a-real-swproj''" "\<lambda>s. None" "\<lambda>s. None" "[]" True]
      parse_swproj_missing_markers [of "''<ProjectHeader></ProjectHeader>''" "\<lambda>s. None" "\<lambda>s. None" "[]" True]
    by simp
qed

subsection \<open>The shape of a parsed profile\<close>

lemma read_points_length:
  "read_points data float_start fpp is = Inr pts \<Longrightarrow> length pts = length is"
  by (induction "is" arbitrary: pts) (auto simp: Let_def split: sum.splits)

lemma parse_block_lengths:
  assumes "parse_block data boundaries header = Inr b"
  shows "length (blk_freqs b) = 355" and "length (blk_values b) = 355"
  using assms read_points_length
  by (auto simp: parse_block_def Let_def POINTS_PER_CURVE_def split: sum.splits)

lemma parse_blocks_lengths:
  "parse_blocks data headers boundaries = Inr bs \<Longrightarrow> b \<in> set bs \<Longrightarrow>
   length (blk_freqs b) = 355 \<and> length (blk_values b) = 355"
  by (induction headers arbitrary: bs) (auto simp: parse_block_lengths split: sum.splits)

text \<open>
  The invariant of the assembly loop: the keys of the dictionary are distinct, every
  entry is filed under its own name and index, and its curves are still empty.
\<close>

definition fresh_channels :: "channel_dict \<Rightarrow> bool" where
  "fresh_channels chans \<longleftrightarrow>
     distinct (map fst chans)
     \<and> list_all (\<lambda>(k, ch). k = (name ch, index ch) \<and> frequencies ch = []
                     \<and> correction_dB ch = [] \<and> measurement_dB ch = []) chans"

lemma fresh_channels_delay:
  assumes "fresh_channels chans"
  shows "fresh_channels (map (\<lambda>(k, ch). if k = key then (k, ch\<lparr>delay_ms := d\<rparr>) else (k, ch)) chans)"
proof -
  let ?f = "\<lambda>(k, ch). if k = key then (k, ch\<lparr>delay_ms := d\<rparr>) else (k, ch)"
  let ?P = "\<lambda>(k, ch). k = (name ch, index ch) \<and> frequencies ch = []
                     \<and> correction_dB ch = [] \<and> measurement_dB ch = []"
  have keys: "map fst (map ?f chans) = map fst chans"
    by (induction chans) auto
  have "list_all ?P chans" using assms by (simp add: fresh_channels_def)
  then have rest: "list_all ?P (map ?f chans)"
    by (induction chans) (auto split: if_splits)
  have "distinct (map fst chans)" using assms by (simp add: fresh_channels_def)
  then show ?thesis unfolding fresh_channels_def keys using rest by blast
qed

lemma assemble_channel_fresh:
  assumes "assemble_channel to_int to_float data boundaries chans im = Inr chans'"
    and "fresh_channels chans"
  shows "fresh_channels chans'"
proof -
  obtain i meta_start where im: "im = (i, meta_start)" by (cases im)
  let ?meta = "parse_metadata data meta_start boundaries"
  let ?name = "case ?meta (str ''ChannelName'') of Some v \<Rightarrow> v | None \<Rightarrow> str ''Channel_'' @ decimal i"
  obtain ch_idx where idx: "(case ?meta (str ''ChannelIndex'') of
        Some v \<Rightarrow> to_int v | None \<Rightarrow> Some (int i)) = Some ch_idx"
    using assms(1) unfolding im assemble_channel_def by (auto simp: Let_def split: option.splits)
  let ?key = "(?name, ch_idx)"
  let ?new = "\<lparr>name = ?name, index = ch_idx,
      group = (case ?meta (str ''ChannelGroup'') of Some v \<Rightarrow> v | None \<Rightarrow> []),
      delay_ms = Finite 0, frequencies = [], correction_dB = [], measurement_dB = []\<rparr>"
  let ?chans1 = "if ?key \<in> set (map fst chans) then chans else chans @ [(?key, ?new)]"
  have f1: "fresh_channels ?chans1"
    using assms(2) by (auto simp: fresh_channels_def)
  have "chans' = ?chans1 \<or>
      (\<exists>d. chans' = map (\<lambda>(k, ch). if k = ?key then (k, ch\<lparr>delay_ms := d\<rparr>) else (k, ch)) ?chans1)"
    using assms(1) idx unfolding im assemble_channel_def
    by (simp add: Let_def split: option.splits if_splits) blast+
  then show ?thesis using f1 fresh_channels_delay [OF f1] by auto
qed

lemma assemble_channels_fresh:
  "assemble_channels to_int to_float data boundaries chans ims = Inr chans' \<Longrightarrow>
   fresh_channels chans \<Longrightarrow> fresh_channels chans'"
proof (induction ims arbitrary: chans)
  case Nil
  then show ?case by simp
next
  case (Cons im ims)
  then show ?case by (auto split: sum.splits dest: assemble_channel_fresh)
qed

lemma assign_blocks_identity:
  "name (assign_blocks blocks (i, ch)) = name ch" "index (assign_blocks blocks (i, ch)) = index ch"
  by (simp_all add: assign_blocks_def Let_def)

lemma assign_blocks_fresh:
  assumes "frequencies ch = []" "correction_dB ch = []" "measurement_dB ch = []"
  shows "frequencies (assign_blocks blocks (i, ch))
           = (if 2 * i < length blocks then blk_freqs (blocks ! (2 * i)) else [])"
    and "correction_dB (assign_blocks blocks (i, ch))
           = (if 2 * i < length blocks then blk_values (blocks ! (2 * i)) else [])"
    and "measurement_dB (assign_blocks blocks (i, ch))
           = (if 2 * i + 1 < length blocks then blk_values (blocks ! (2 * i + 1)) else [])"
  using assms by (simp_all add: assign_blocks_def Let_def mult.commute)

lemma parse_blocks_length:
  "parse_blocks data headers boundaries = Inr bs \<Longrightarrow> length bs = length headers"
  by (induction headers arbitrary: bs) (auto split: sum.splits)

lemma nth_assigned:
  assumes "i < length cl"
  shows "map (assign_blocks blocks) (enumerate 0 cl) ! i = assign_blocks blocks (i, cl ! i)"
  using assms by (simp add: nth_enumerate_eq)

lemma map_assign_index:
  "map index (map (assign_blocks blocks) (enumerate n cl)) = map index cl"
  by (induction cl arbitrary: n) (simp_all add: assign_blocks_identity)

lemma map_assign_identity:
  "map (\<lambda>ch. (name ch, index ch)) (map (assign_blocks blocks) (enumerate n cl))
     = map (\<lambda>ch. (name ch, index ch)) cl"
  by (induction cl arbitrary: n) (simp_all add: assign_blocks_identity)

subsection \<open>Three small buffers\<close>

text \<open>
  A data block that ends 8 bytes after its marker has \<open>fpp = round(2 / 355) = 0\<close>, so all
  355 points are read from the same 8 bytes.
\<close>

lemma read_points_fpp0:
  assumes "unpack_float32 data float_start = Inr f" "unpack_float32 data (float_start + 4) = Inr v"
  shows "read_points data float_start 0 is = Inr (replicate (length is) (f, v))"
  using assms by (induction "is") simp_all

lemma not_increasing_replicate:
  assumes "1 < n"
  shows "\<not> sorted_wrt pyfloat_less (replicate n (Finite x))"
proof -
  obtain k where "n = Suc (1 + k)" using less_imp_Suc_add [OF assms] by blast
  then show ?thesis by simp
qed

text \<open>
  \<open>one_block_profile\<close>: the header terminator, two metadata runs that only give
  \<open>ChannelDelayMs = "0"\<close>, and one data block holding the floats 1000.0 and 1.5.
\<close>

definition one_block_profile :: bytes where
  "one_block_profile =
     ''</ProjectHeader>''
     @ ''ChannelDelayMs'' @ [CHR 0x00, CHR 0x01, CHR 0x00, CHR 0x00, CHR 0x00] @ ''0''
     @ ''ChannelDelayMs'' @ [CHR 0x00, CHR 0x01, CHR 0x00, CHR 0x00, CHR 0x00] @ ''0''
     @ DATA_HEADER
     @ [CHR 0x00, CHR 0x00, CHR 0x7A, CHR 0x44, CHR 0x00, CHR 0x00, CHR 0xC0, CHR 0x3F]"

lemma one_block_length: "length one_block_profile = 72"
  by (simp add: one_block_profile_def DATA_HEADER_def)

lemma one_block_header: "bytes_find one_block_profile PROJECT_HEADER_END 0 = Some 0"
  by (simp add: one_block_profile_def DATA_HEADER_def PROJECT_HEADER_END_def bytes_find_def)

lemma one_block_data_headers: "find_data_headers one_block_profile 0 = [56]"
proof -
  have a: "bytes_find one_block_profile DATA_HEADER 0 = Some 56"
    by (simp add: one_block_profile_def DATA_HEADER_def bytes_find_def)
  have b: "bytes_find one_block_profile DATA_HEADER 57 = None"
    by (simp add: one_block_profile_def DATA_HEADER_def bytes_find_def)
  show ?thesis
    by (simp add: find_data_headers.simps [of _ 0] find_data_headers.simps [of _ 57] a b)
qed

lemma one_block_delay_positions: "find_delay_positions one_block_profile 0 = [16, 36]"
proof -
  have a: "bytes_find one_block_profile CHANNEL_DELAY_MS 0 = Some 16"
    by (simp add: one_block_profile_def DATA_HEADER_def CHANNEL_DELAY_MS_def bytes_find_def)
  have b: "bytes_find one_block_profile CHANNEL_DELAY_MS 30 = Some 36"
    by (simp add: one_block_profile_def DATA_HEADER_def CHANNEL_DELAY_MS_def bytes_find_def)
  have c: "bytes_find one_block_profile CHANNEL_DELAY_MS 50 = None"
    by (simp add: one_block_profile_def DATA_HEADER_def CHANNEL_DELAY_MS_def bytes_find_def)
  have l: "length CHANNEL_DELAY_MS = 14" by (simp add: CHANNEL_DELAY_MS_def)
  show ?thesis
    by (simp add: find_delay_positions.simps [of _ 0] find_delay_positions.simps [of _ 30]
        find_delay_positions.simps [of _ 50] a b c l)
qed

lemma one_block_block:
  "parse_block one_block_profile [16, 36, 56] 56 =
     Inr \<lparr>blk_fpp = 0, blk_freqs = replicate 355 (Finite 1000),
          blk_values = replicate 355 (Finite (3 / 2))\<rparr>"
proof -
  have b1: "le_bits one_block_profile 64 = 1148846080"
    by (simp add: one_block_profile_def DATA_HEADER_def le_bits_def)
  have b2: "le_bits one_block_profile 68 = 1069547520"
    by (simp add: one_block_profile_def DATA_HEADER_def le_bits_def)
  have fb1: "float32_of_bits 1148846080 = Finite 1000"
    by (simp add: float32_of_bits_def)
  have fb2: "float32_of_bits 1069547520 = Finite (3 / 2)"
    by (simp add: float32_of_bits_def)
  have f: "unpack_float32 one_block_profile 64 = Inr (Finite 1000)"
    by (simp add: unpack_float32_def one_block_length b1 fb1)
  have v: "unpack_float32 one_block_profile (64 + 4) = Inr (Finite (3 / 2))"
    by (simp add: unpack_float32_def one_block_length b2 fb2)
  have rp: "read_points one_block_profile 64 0 [0 ..< 355] =
      Inr (replicate 355 (Finite 1000, Finite (3 / 2)))"
    using read_points_fpp0 [OF f v, of "[0 ..< 355]"] by simp
  have fpp: "py_round_div 2 355 = 0" by (simp add: py_round_div_def)
  show ?thesis
    by (simp add: parse_block_def one_block_length fpp POINTS_PER_CURVE_def rp)
qed

lemma one_block_metadata_first: "parse_metadata one_block_profile 16 [16, 36, 56] = [str ''ChannelDelayMs'' \<mapsto> str ''0'']"
proof -
  have s: "metadata_step one_block_profile 16 = Continue 36 (Some (str ''ChannelDelayMs'', str ''0''))"
    by (simp add: one_block_profile_def DATA_HEADER_def metadata_step_def bytes_find_in_def
        bytes_find_def py_slice_def decode_ascii_def isprintable_def le_bits_def str_def)
  show ?thesis
    by (simp add: parse_metadata_def parse_metadata_loop.simps [of _ _ 16]
        parse_metadata_loop.simps [of _ _ 36] s record_pair_def)
qed

lemma one_block_metadata_second: "parse_metadata one_block_profile 36 [16, 36, 56] = [str ''ChannelDelayMs'' \<mapsto> str ''0'']"
proof -
  have s: "metadata_step one_block_profile 36 = Continue 56 (Some (str ''ChannelDelayMs'', str ''0''))"
    by (simp add: one_block_profile_def DATA_HEADER_def metadata_step_def bytes_find_in_def
        bytes_find_def py_slice_def decode_ascii_def isprintable_def le_bits_def str_def)
  show ?thesis
    by (simp add: parse_metadata_def parse_metadata_loop.simps [of _ _ 36]
        parse_metadata_loop.simps [of _ _ 56] s record_pair_def)
qed

lemma one_block_profile_parsed:
  "parse_swproj to_int to_float path one_block_profile require_stereo =
     Inr \<lparr>source_path = path, channels =
       [\<lparr>name = str ''Channel_0'', index = 0, group = [], delay_ms = Finite 0,
         frequencies = replicate 355 (Finite 1000),
         correction_dB = replicate 355 (Finite (3 / 2)), measurement_dB = []\<rparr>,
        \<lparr>name = str ''Channel_1'', index = 1, group = [], delay_ms = Finite 0,
         frequencies = [], correction_dB = [], measurement_dB = []\<rparr>]\<rparr>"
proof -
  have k: "str ''ChannelName'' \<noteq> str ''ChannelDelayMs''" "str ''ChannelIndex'' \<noteq> str ''ChannelDelayMs''"
    "str ''ChannelGroup'' \<noteq> str ''ChannelDelayMs''"
    by (simp_all add: str_def)
  have c1: "assemble_channel to_int to_float one_block_profile [16, 36, 56] [] (0, 16) =
      Inr [((str ''Channel_0'', 0), \<lparr>name = str ''Channel_0'', index = 0, group = [],
            delay_ms = Finite 0, frequencies = [], correction_dB = [], measurement_dB = []\<rparr>)]"
    by (simp add: assemble_channel_def one_block_metadata_first k decimal.simps str_def Let_def)
  have c2: "assemble_channel to_int to_float one_block_profile [16, 36, 56]
        [((str ''Channel_0'', 0), \<lparr>name = str ''Channel_0'', index = 0, group = [],
            delay_ms = Finite 0, frequencies = [], correction_dB = [], measurement_dB = []\<rparr>)] (Suc 0, 36) =
      Inr [((str ''Channel_0'', 0), \<lparr>name = str ''Channel_0'', index = 0, group = [],
             delay_ms = Finite 0, frequencies = [], correction_dB = [], measurement_dB = []\<rparr>),
           ((str ''Channel_1'', 1), \<lparr>name = str ''Channel_1'', index = 1, group = [],
             delay_ms = Finite 0, frequencies = [], correction_dB = [], measurement_dB = []\<rparr>)]"
    by (simp add: assemble_channel_def one_block_metadata_second k decimal.simps str_def Let_def)
  have e: "enumerate 0 [16, 36 :: nat] = [(0, 16), (1, 36)]" by (simp add: enumerate_eq_zip upt_conv_Cons)
  show ?thesis
    by (simp add: parse_swproj_def one_block_header one_block_data_headers one_block_delay_positions one_block_block e c1 c2 assign_blocks_def
        enumerate_eq_zip upt_conv_Cons)
qed

definition one_block_channels :: "pyfloat ChannelData list" where
  "one_block_channels =
     [\<lparr>name = str ''Channel_0'', index = 0, group = [], delay_ms = Finite 0,
       frequencies = replicate 355 (Finite 1000),
       correction_dB = replicate 355 (Finite (3 / 2)), measurement_dB = []\<rparr>,
      \<lparr>name = str ''Channel_1'', index = 1, group = [], delay_ms = Finite 0,
       frequencies = [], correction_dB = [], measurement_dB = []\<rparr>]"

text \<open>
  \<open>two_block_profile\<close>: one metadata run naming the channel \<open>FL\<close>, then a correction block
  and a measurement block.
\<close>

definition two_block_profile :: bytes where
  "two_block_profile =
     ''</ProjectHeader>''
     @ ''ChannelDelayMs'' @ [CHR 0x00, CHR 0x01, CHR 0x00, CHR 0x00, CHR 0x00] @ ''0''
     @ ''ChannelName'' @ [CHR 0x00, CHR 0x02, CHR 0x00, CHR 0x00, CHR 0x00] @ ''FL''
     @ DATA_HEADER
     @ [CHR 0x00, CHR 0x00, CHR 0x7A, CHR 0x44, CHR 0x00, CHR 0x00, CHR 0xC0, CHR 0x3F]
     @ DATA_HEADER
     @ [CHR 0x00, CHR 0x00, CHR 0x7A, CHR 0x44, CHR 0x00, CHR 0x00, CHR 0x00, CHR 0xC0]"

lemma two_block_length: "length two_block_profile = 86"
  by (simp add: two_block_profile_def DATA_HEADER_def)

lemma two_block_header: "bytes_find two_block_profile PROJECT_HEADER_END 0 = Some 0"
  by (simp add: two_block_profile_def DATA_HEADER_def PROJECT_HEADER_END_def bytes_find_def)

lemma two_block_data_headers: "find_data_headers two_block_profile 0 = [54, 70]"
proof -
  have a: "bytes_find two_block_profile DATA_HEADER 0 = Some 54"
    by (simp add: two_block_profile_def DATA_HEADER_def bytes_find_def)
  have b: "bytes_find two_block_profile DATA_HEADER 55 = Some 70"
    by (simp add: two_block_profile_def DATA_HEADER_def bytes_find_def)
  have c: "bytes_find two_block_profile DATA_HEADER 71 = None"
    by (simp add: two_block_profile_def DATA_HEADER_def bytes_find_def)
  show ?thesis
    by (simp add: find_data_headers.simps [of _ 0] find_data_headers.simps [of _ 55]
        find_data_headers.simps [of _ 71] a b c)
qed

lemma two_block_delay_positions: "find_delay_positions two_block_profile 0 = [16]"
proof -
  have a: "bytes_find two_block_profile CHANNEL_DELAY_MS 0 = Some 16"
    by (simp add: two_block_profile_def DATA_HEADER_def CHANNEL_DELAY_MS_def bytes_find_def)
  have b: "bytes_find two_block_profile CHANNEL_DELAY_MS 30 = None"
    by (simp add: two_block_profile_def DATA_HEADER_def CHANNEL_DELAY_MS_def bytes_find_def)
  have l: "length CHANNEL_DELAY_MS = 14" by (simp add: CHANNEL_DELAY_MS_def)
  show ?thesis
    by (simp add: find_delay_positions.simps [of _ 0] find_delay_positions.simps [of _ 30] a b l)
qed

lemma two_block_correction:
  "parse_block two_block_profile [16, 54, 70] 54 =
     Inr \<lparr>blk_fpp = 0, blk_freqs = replicate 355 (Finite 1000),
          blk_values = replicate 355 (Finite (3 / 2))\<rparr>"
proof -
  have b1: "le_bits two_block_profile 62 = 1148846080"
    by (simp add: two_block_profile_def DATA_HEADER_def le_bits_def)
  have b2: "le_bits two_block_profile 66 = 1069547520"
    by (simp add: two_block_profile_def DATA_HEADER_def le_bits_def)
  have fb1: "float32_of_bits 1148846080 = Finite 1000"
    by (simp add: float32_of_bits_def)
  have fb2: "float32_of_bits 1069547520 = Finite (3 / 2)"
    by (simp add: float32_of_bits_def)
  have f: "unpack_float32 two_block_profile 62 = Inr (Finite 1000)"
    by (simp add: unpack_float32_def two_block_length b1 fb1)
  have v: "unpack_float32 two_block_profile (62 + 4) = Inr (Finite (3 / 2))"
    by (simp add: unpack_float32_def two_block_length b2 fb2)
  have rp: "read_points two_block_profile 62 0 [0 ..< 355] =
      Inr (replicate 355 (Finite 1000, Finite (3 / 2)))"
    using read_points_fpp0 [OF f v, of "[0 ..< 355]"] by simp
  have fpp: "py_round_div 2 355 = 0" by (simp add: py_round_div_def)
  show ?thesis
    by (simp add: parse_block_def two_block_length fpp POINTS_PER_CURVE_def rp)
qed

lemma two_block_measurement:
  "parse_block two_block_profile [16, 54, 70] 70 =
     Inr \<lparr>blk_fpp = 0, blk_freqs = replicate 355 (Finite 1000),
          blk_values = replicate 355 (Finite (- 2))\<rparr>"
proof -
  have b1: "le_bits two_block_profile 78 = 1148846080"
    by (simp add: two_block_profile_def DATA_HEADER_def le_bits_def)
  have b2: "le_bits two_block_profile 82 = 3221225472"
    by (simp add: two_block_profile_def DATA_HEADER_def le_bits_def)
  have fb1: "float32_of_bits 1148846080 = Finite 1000"
    by (simp add: float32_of_bits_def)
  have fb2: "float32_of_bits 3221225472 = Finite (- 2)"
    by (simp add: float32_of_bits_def)
  have f: "unpack_float32 two_block_profile 78 = Inr (Finite 1000)"
    by (simp add: unpack_float32_def two_block_length b1 fb1)
  have v: "unpack_float32 two_block_profile (78 + 4) = Inr (Finite (- 2))"
    by (simp add: unpack_float32_def two_block_length b2 fb2)
  have rp: "read_points two_block_profile 78 0 [0 ..< 355] =
      Inr (replicate 355 (Finite 1000, Finite (- 2)))"
    using read_points_fpp0 [OF f v, of "[0 ..< 355]"] by simp
  have fpp: "py_round_div 2 355 = 0" by (simp add: py_round_div_def)
  show ?thesis
    by (simp add: parse_block_def two_block_length fpp POINTS_PER_CURVE_def rp)
qed

lemma two_block_metadata:
  "parse_metadata two_block_profile 16 [16, 54, 70] =
     [str ''ChannelDelayMs'' \<mapsto> str ''0'', str ''ChannelName'' \<mapsto> str ''FL'']"
proof -
  have s1: "metadata_step two_block_profile 16 = Continue 36 (Some (str ''ChannelDelayMs'', str ''0''))"
    by (simp add: two_block_profile_def DATA_HEADER_def metadata_step_def bytes_find_in_def
        bytes_find_def py_slice_def decode_ascii_def isprintable_def le_bits_def str_def)
  have s2: "metadata_step two_block_profile 36 = Continue 54 (Some (str ''ChannelName'', str ''FL''))"
    by (simp add: two_block_profile_def DATA_HEADER_def metadata_step_def bytes_find_in_def
        bytes_find_def py_slice_def decode_ascii_def isprintable_def le_bits_def str_def)
  show ?thesis
    by (simp add: parse_metadata_def parse_metadata_loop.simps [of _ _ 16]
        parse_metadata_loop.simps [of _ _ 36] parse_metadata_loop.simps [of _ _ 54]
        s1 s2 record_pair_def)
qed

definition two_block_channels :: "pyfloat ChannelData list" where
  "two_block_channels =
     [\<lparr>name = str ''FL'', index = 0, group = [], delay_ms = Finite 0,
       frequencies = replicate 355 (Finite 1000),
       correction_dB = replicate 355 (Finite (3 / 2)),
       measurement_dB = replicate 355 (Finite (- 2))\<rparr>]"

lemma two_block_profile_parsed:
  "parse_swproj to_int to_float path two_block_profile False =
     Inr \<lparr>source_path = path, channels = two_block_channels\<rparr>"
proof -
  have k: "str ''ChannelIndex'' \<noteq> str ''ChannelDelayMs''" "str ''ChannelIndex'' \<noteq> str ''ChannelName''"
    "str ''ChannelGroup'' \<noteq> str ''ChannelDelayMs''" "str ''ChannelGroup'' \<noteq> str ''ChannelName''"
    "str ''ChannelDelayMs'' \<noteq> str ''ChannelName''"
    by (simp_all add: str_def)
  have c1: "assemble_channel to_int to_float two_block_profile [16, 54, 70] [] (0, 16) =
      Inr [((str ''FL'', 0), \<lparr>name = str ''FL'', index = 0, group = [],
            delay_ms = Finite 0, frequencies = [], correction_dB = [], measurement_dB = []\<rparr>)]"
    by (simp add: assemble_channel_def two_block_metadata k Let_def)
  show ?thesis
    by (simp add: parse_swproj_def two_block_header two_block_data_headers two_block_delay_positions two_block_correction two_block_measurement c1 assign_blocks_def
        enumerate_eq_zip upt_conv_Cons two_block_channels_def)
qed

text \<open>
  C1, as the code has it.  Whenever \<open>parse_swproj\<close> returns a profile, the data blocks
  have all been read, one for every data-block marker of the file, and the channels are
  in ascending order of their index.  The channel at position \<open>i\<close> of that order has the
  frequencies and the correction of block \<open>2i\<close>, 355 entries each, when the file has more
  than \<open>2i\<close> markers, and no frequencies and no correction otherwise; it has the values of
  block \<open>2i + 1\<close> as its measurement, 355 entries, when the file has more than \<open>2i + 1\<close>
  markers, and no measurement otherwise.  No two channels share the pair (name, index).
  The frequencies are the floats of the file as they come: the parser does not order or
  check them.
\<close>

theorem parse_swproj_profile_shape:
  "parse_swproj to_int to_float path data require_stereo = Inr prof \<longrightarrow>
     (\<exists>blocks.
         parse_blocks data (find_data_headers data 0)
           (sort (find_data_headers data 0 @ find_delay_positions data 0)) = Inr blocks
       \<and> length blocks = length (find_data_headers data 0)
       \<and> (\<forall>i < length (channels prof).
             (if 2 * i < length blocks
              then frequencies (channels prof ! i) = blk_freqs (blocks ! (2 * i))
                 \<and> correction_dB (channels prof ! i) = blk_values (blocks ! (2 * i))
                 \<and> length (frequencies (channels prof ! i)) = 355
                 \<and> length (correction_dB (channels prof ! i)) = 355
              else frequencies (channels prof ! i) = []
                 \<and> correction_dB (channels prof ! i) = [])
           \<and> (if 2 * i + 1 < length blocks
              then measurement_dB (channels prof ! i) = blk_values (blocks ! (2 * i + 1))
                 \<and> length (measurement_dB (channels prof ! i)) = 355
              else measurement_dB (channels prof ! i) = [])))
     \<and> sorted (map index (channels prof))
     \<and> distinct (map (\<lambda>ch. (name ch, index ch)) (channels prof))"
proof
  assume p: "parse_swproj to_int to_float path data require_stereo = Inr prof"
  let ?hs = "find_data_headers data 0"
  let ?bd = "sort (?hs @ find_delay_positions data 0)"
  obtain blocks where bl: "parse_blocks data ?hs ?bd = Inr blocks"
    using p by (auto simp: parse_swproj_def Let_def split: option.splits if_splits sum.splits)
  obtain chans where ch: "assemble_channels to_int to_float data ?bd []
      (enumerate 0 (find_delay_positions data 0)) = Inr chans"
    using p bl by (auto simp: parse_swproj_def Let_def split: option.splits if_splits sum.splits)
  let ?cl = "sort_key index (map snd chans)"
  have cs: "channels prof = map (assign_blocks blocks) (enumerate 0 ?cl)"
    using p bl ch by (auto simp: parse_swproj_def Let_def split: option.splits if_splits)
  have fresh: "fresh_channels chans"
    by (rule assemble_channels_fresh [OF ch]) (simp add: fresh_channels_def)
  have keys: "map (\<lambda>ch. (name ch, index ch)) (map snd chans) = map fst chans"
    using fresh by (induction chans) (auto simp: fresh_channels_def)
  have "distinct (map (\<lambda>ch. (name ch, index ch)) (map snd chans))"
    using fresh unfolding keys by (simp add: fresh_channels_def)
  then have "distinct (map (\<lambda>ch. (name ch, index ch)) ?cl)"
    by (metis distinct_map distinct_sort set_sort)
  then have d: "distinct (map (\<lambda>ch. (name ch, index ch)) (channels prof))"
    unfolding cs map_assign_identity .
  have o: "sorted (map index (channels prof))"
    unfolding cs map_assign_index by (rule sorted_sort_key)
  have empty: "frequencies c = [] \<and> correction_dB c = [] \<and> measurement_dB c = []"
    if "c \<in> set ?cl" for c
    using that fresh by (auto simp: fresh_channels_def list_all_iff)
  have n: "length blocks = length ?hs" by (rule parse_blocks_length [OF bl])
  have bls: "length (blk_freqs (blocks ! k)) = 355 \<and> length (blk_values (blocks ! k)) = 355"
    if "k < length blocks" for k
    using parse_blocks_lengths [OF bl, of "blocks ! k"] that by simp
  have shape:
    "(if 2 * i < length blocks
      then frequencies (channels prof ! i) = blk_freqs (blocks ! (2 * i))
         \<and> correction_dB (channels prof ! i) = blk_values (blocks ! (2 * i))
         \<and> length (frequencies (channels prof ! i)) = 355
         \<and> length (correction_dB (channels prof ! i)) = 355
      else frequencies (channels prof ! i) = []
         \<and> correction_dB (channels prof ! i) = [])
     \<and> (if 2 * i + 1 < length blocks
        then measurement_dB (channels prof ! i) = blk_values (blocks ! (2 * i + 1))
           \<and> length (measurement_dB (channels prof ! i)) = 355
        else measurement_dB (channels prof ! i) = [])"
    if i: "i < length (channels prof)" for i
  proof -
    have il: "i < length ?cl" using i unfolding cs by simp
    then have "?cl ! i \<in> set ?cl" by (rule nth_mem)
    then have e: "frequencies (?cl ! i) = []" "correction_dB (?cl ! i) = []"
      "measurement_dB (?cl ! i) = []"
      using empty by blast+
    have c: "channels prof ! i = assign_blocks blocks (i, ?cl ! i)"
      unfolding cs by (rule nth_assigned [OF il])
    show ?thesis
      unfolding c assign_blocks_fresh [OF e]
      using bls [of "2 * i"] bls [of "2 * i + 1"] by simp
  qed
  show "(\<exists>blocks.
         parse_blocks data ?hs ?bd = Inr blocks
       \<and> length blocks = length ?hs
       \<and> (\<forall>i < length (channels prof).
             (if 2 * i < length blocks
              then frequencies (channels prof ! i) = blk_freqs (blocks ! (2 * i))
                 \<and> correction_dB (channels prof ! i) = blk_values (blocks ! (2 * i))
                 \<and> length (frequencies (channels prof ! i)) = 355
                 \<and> length (correction_dB (channels prof ! i)) = 355
              else frequencies (channels prof ! i) = []
                 \<and> correction_dB (channels prof ! i) = [])
           \<and> (if 2 * i + 1 < length blocks
              then measurement_dB (channels prof ! i) = blk_values (blocks ! (2 * i + 1))
                 \<and> length (measurement_dB (channels prof ! i)) = 355
              else measurement_dB (channels prof ! i) = [])))
     \<and> sorted (map index (channels prof))
     \<and> distinct (map (\<lambda>ch. (name ch, index ch)) (channels prof))"
    using bl n shape o d by blast
qed

theorem parse_swproj_profile_shape_witness:
  "parse_swproj (\<lambda>s. None) (\<lambda>s. None) [] two_block_profile False
     = Inr \<lparr>source_path = [], channels = two_block_channels\<rparr>
   \<and> length (find_data_headers two_block_profile 0) = 2
   \<and> length two_block_channels = 1
   \<and> length (frequencies (two_block_channels ! 0)) = 355
   \<and> length (correction_dB (two_block_channels ! 0)) = 355
   \<and> length (measurement_dB (two_block_channels ! 0)) = 355
   \<and> distinct (map (\<lambda>ch. (name ch, index ch)) two_block_channels)"
proof -
  have p: "parse_swproj (\<lambda>s. None) (\<lambda>s. None) [] two_block_profile False
     = Inr \<lparr>source_path = [], channels = two_block_channels\<rparr>"
    by (rule two_block_profile_parsed)
  have h: "length (find_data_headers two_block_profile 0) = 2"
    by (simp add: two_block_data_headers)
  have l: "length two_block_channels = 1" by (simp add: two_block_channels_def)
  note t = parse_swproj_profile_shape
      [of "\<lambda>s. None" "\<lambda>s. None" "[]" two_block_profile False
          "\<lparr>source_path = [], channels = two_block_channels\<rparr>", THEN mp, OF p]
  have d: "distinct (map (\<lambda>ch. (name ch, index ch)) two_block_channels)"
    using t by simp
  have "length (frequencies (two_block_channels ! 0)) = 355
      \<and> length (correction_dB (two_block_channels ! 0)) = 355
      \<and> length (measurement_dB (two_block_channels ! 0)) = 355"
    using t [THEN conjunct1] h l
    apply (elim exE conjE)
    apply (drule_tac x = 0 in spec)
    apply clarsimp
    done
  then show ?thesis using p h l d by blast
qed

text \<open>
  The claim as the specification states it fails on \<open>one_block_profile\<close> with stereo
  validation on: the parse succeeds, the first channel has 355 equal frequencies (not
  strictly increasing) and the second channel has none.
\<close>

theorem parse_swproj_shape_counterexample:
  "parse_swproj (\<lambda>s. None) (\<lambda>s. None) [] one_block_profile True
     = Inr \<lparr>source_path = [], channels = one_block_channels\<rparr>
   \<and> \<not> sorted_wrt pyfloat_less (frequencies (one_block_channels ! 0))
   \<and> length (frequencies (one_block_channels ! 1)) = 0"
proof -
  have "\<not> sorted_wrt pyfloat_less (replicate 355 (Finite 1000))"
    by (rule not_increasing_replicate) simp
  then show ?thesis
    unfolding one_block_channels_def
    by (simp only: one_block_profile_parsed nth_Cons_0 nth_Cons_Suc One_nat_def
        ChannelData.simps list.size) simp
qed

subsection \<open>A truncated data block\<close>

text \<open>
  \<open>truncated_profile\<close>: the header terminator and a data-block marker at the very end of
  the buffer.
\<close>

definition truncated_profile :: bytes where
  "truncated_profile = ''</ProjectHeader>'' @ DATA_HEADER"

text \<open>
  C7 on \<open>truncated_profile\<close>: \<open>_parse_blocks\<close> reads past the end of the buffer and the
  \<open>struct.error\<close> of \<open>unpack_from\<close> leaves \<open>parse_swproj\<close>; it is none of the three errors
  the parser raises itself.  (\<open>_parse_metadata\<close> checks the length of the buffer before
  its own \<open>unpack_from\<close>.)
\<close>

theorem parse_swproj_truncated_block:
  "parse_swproj (\<lambda>s. None) (\<lambda>s. None) [] truncated_profile True = Inl StructError"
proof -
  have len: "length truncated_profile = 24"
    by (simp add: truncated_profile_def DATA_HEADER_def)
  have hdr: "bytes_find truncated_profile PROJECT_HEADER_END 0 = Some 0"
    by (simp add: truncated_profile_def PROJECT_HEADER_END_def bytes_find_def DATA_HEADER_def)
  have a: "bytes_find truncated_profile DATA_HEADER 0 = Some 16"
    by (simp add: truncated_profile_def bytes_find_def DATA_HEADER_def)
  have b: "bytes_find truncated_profile DATA_HEADER 17 = None"
    by (simp add: truncated_profile_def bytes_find_def DATA_HEADER_def)
  have dh: "find_data_headers truncated_profile 0 = [16]"
    by (simp add: find_data_headers.simps [of _ 0] find_data_headers.simps [of _ 17] a b)
  have dp: "find_delay_positions truncated_profile 0 = []"
    by (simp add: truncated_profile_def find_delay_positions.simps [of _ 0]
        bytes_find_def DATA_HEADER_def CHANNEL_DELAY_MS_def)
  have up: "[0 ..< POINTS_PER_CURVE] = 0 # [1 ..< POINTS_PER_CURVE]"
    by (simp add: POINTS_PER_CURVE_def upt_conv_Cons)
  have blk: "parse_block truncated_profile [16] 16 = Inl StructError"
    by (simp add: parse_block_def len py_round_div_def up unpack_float32_def)
  show ?thesis
    by (simp add: parse_swproj_def hdr dh dp blk)
qed

end
